theory Spec2Isabelle
  imports Complex_Main "HOL-Library.AList"
begin

section \<open>JavaScript values used by the optimisation system\<close>

text \<open>
  A JavaScript number is an IEEE double: a finite value, one of the two infinities, or NaN.
  The code below only compares numbers, so a finite double is read as the real it denotes.
  Every comparison with NaN is false.
\<close>

datatype jsnum = Num real | PosInf | NegInf | NaN

fun js_le :: "jsnum \<Rightarrow> jsnum \<Rightarrow> bool" where
  "js_le NaN _ = False"
| "js_le _ NaN = False"
| "js_le NegInf _ = True"
| "js_le _ PosInf = True"
| "js_le (Num a) (Num b) = (a \<le> b)"
| "js_le PosInf _ = False"
| "js_le (Num a) NegInf = False"

fun js_lt :: "jsnum \<Rightarrow> jsnum \<Rightarrow> bool" where
  "js_lt NaN _ = False"
| "js_lt _ NaN = False"
| "js_lt PosInf _ = False"
| "js_lt _ NegInf = False"
| "js_lt (Num a) (Num b) = (a < b)"
| "js_lt NegInf _ = True"
| "js_lt (Num a) PosInf = True"

text \<open>The three quality tiers, the strings \<^verbatim>\<open>'low'\<close>, \<^verbatim>\<open>'medium'\<close>, \<^verbatim>\<open>'high'\<close> of the source.\<close>

datatype quality = Low | Medium | High

fun quality_name :: "quality \<Rightarrow> string" where
  "quality_name Low = ''low''"
| "quality_name Medium = ''medium''"
| "quality_name High = ''high''"

record lod_distances =
  near :: jsnum
  medium :: jsnum
  far :: jsnum

section \<open>LODManager.determineQuality\<close>

definition determineQuality :: "jsnum \<Rightarrow> lod_distances \<Rightarrow> quality" where
  "determineQuality distance lodDistances =
     (if js_le distance (near lodDistances) then High
      else if js_le distance (medium lodDistances) then Medium
      else Low)"

section \<open>External collaborators\<close>

text \<open>
  The loader rejects with an opaque error value; \<^verbatim>\<open>preloadModel\<close> throws its own error when
  the asset or the requested tier is missing; a call of a method that a display node does not
  have throws a \<^verbatim>\<open>TypeError\<close>, here \<open>NodeError\<close> with the node's handle.
\<close>

datatype error = LoadError string | ModelNotFound string quality | NodeError string

text \<open>
  What the code reaches outside itself: the size estimate of a loaded model
  (\<^verbatim>\<open>estimateModelSize\<close>, a traversal of the Three.js object that always yields a rounded,
  non-negative number), the outcome of loading a source path with the GLTF loader, the clock
  \<^verbatim>\<open>Date.now()\<close>, the DOM lookup \<^verbatim>\<open>document.getElementById\<close> and the settings
  that the device detector recommends (its \<^verbatim>\<open>initialize\<close> catches every failure and
  falls back to default capabilities, so it always yields settings).
\<close>

record recommendedSettings =
  rs_maxModels :: int
  rs_lodDistances :: "jsnum list"
  rs_cacheSize :: real
  rs_targetFPS :: real

record 'm env =
  estimateModelSize :: "'m \<Rightarrow> nat"
  loadGLTF :: "string \<Rightarrow> error + 'm"
  now :: nat
  getElementById :: "string \<Rightarrow> string option"
  deviceSettings :: recommendedSettings

section \<open>ModelCache\<close>

text \<open>
  A JavaScript \<^verbatim>\<open>Map\<close> keeps its keys in insertion order: setting a present key replaces
  the value in place, setting an absent key appends it. That is an association list under
  \<^const>\<open>AList.update\<close>, \<^const>\<open>AList.delete\<close> and \<^const>\<open>map_of\<close>.
\<close>

record 'm cache_entry =
  model :: 'm
  entry_size :: nat
  lastAccess :: nat
  accessCount :: nat
  quality :: string

record cache_config =
  maxSize :: real
  maxEntries :: int
  memoryThreshold :: real

datatype reason = Lru | Manual

text \<open>
  The effects of the cache on its surroundings, in the order they happen: the call of the
  loader function handed to \<^verbatim>\<open>get\<close>, the notifications to the subscribers of
  \<^verbatim>\<open>eviction\<close>, \<^verbatim>\<open>load\<close> and \<^verbatim>\<open>error\<close>, and the messages on the warning
  and error channels of the console. Informational \<^verbatim>\<open>console.log\<close> lines are left out.
\<close>

datatype cache_effect =
    LoaderCall string
  | Notify_eviction string reason
  | Notify_load string
  | Notify_error string error
  | Warn_too_large string nat
  | Warn_reset
  | Error_load string error

record 'm cache_state =
  config :: cache_config
  cache :: "(string \<times> 'm cache_entry) list"
  usage :: "(string \<times> 'm cache_entry) list"
  accessOrder :: "string list"
  currentSize :: int
  totalRequests :: nat
  cacheHits :: nat
  cacheMisses :: nat
  trace :: "cache_effect list"

text \<open>The constructor: defaults of 100 MB, 50 entries and a threshold of 0.8, overridden by the
  configuration passed in.\<close>

definition default_cache_config :: cache_config where
  "default_cache_config = \<lparr>maxSize = 100 * 1024 * 1024, maxEntries = 50, memoryThreshold = 0.8\<rparr>"

definition new_ModelCache :: "cache_config \<Rightarrow> 'm cache_state" where
  "new_ModelCache cfg =
     \<lparr>config = cfg, cache = [], usage = [], accessOrder = [], currentSize = 0,
      totalRequests = 0, cacheHits = 0, cacheMisses = 0, trace = []\<rparr>"

text \<open>\<^verbatim>\<open>updateAccessOrder\<close>: \<^verbatim>\<open>indexOf\<close> and \<^verbatim>\<open>splice\<close> drop the first occurrence of the
  key, \<^verbatim>\<open>push\<close> appends it.\<close>

definition updateAccessOrder :: "string \<Rightarrow> 'm cache_state \<Rightarrow> 'm cache_state" where
  "updateAccessOrder key s = s\<lparr>accessOrder := remove1 key (accessOrder s) @ [key]\<rparr>"

text \<open>
  \<^verbatim>\<open>updateAccess\<close> mutates the entry object found in \<^verbatim>\<open>usage\<close>. \<^verbatim>\<open>set\<close> stores one and
  the same object under the key in \<^verbatim>\<open>cache\<close> and in \<^verbatim>\<open>usage\<close>, so the mutation shows in
  both tables.
\<close>

definition updateAccess :: "'m env \<Rightarrow> string \<Rightarrow> 'm cache_state \<Rightarrow> 'm cache_state" where
  "updateAccess env key s =
     (let touch = (\<lambda>entry. entry\<lparr>lastAccess := now env, accessCount := accessCount entry + 1\<rparr>)
      in case map_of (usage s) key of
           None \<Rightarrow> updateAccessOrder key s
         | Some _ \<Rightarrow>
             updateAccessOrder key
               (s\<lparr>usage := AList.map_entry key touch (usage s),
                  cache := AList.map_entry key touch (cache s)\<rparr>))"

definition clear :: "'m cache_state \<Rightarrow> 'm cache_state" where
  "clear s = s\<lparr>cache := [], usage := [], accessOrder := [], currentSize := 0\<rparr>"

definition evictLeastUsed :: "'m cache_state \<Rightarrow> 'm cache_state" where
  "evictLeastUsed s =
     (case accessOrder s of
        [] \<Rightarrow> s
      | keyToEvict # _ \<Rightarrow>
          (case map_of (cache s) keyToEvict of
             None \<Rightarrow> s
           | Some entry \<Rightarrow>
               s\<lparr>trace := trace s @ [Notify_eviction keyToEvict Lru],
                 cache := AList.delete keyToEvict (cache s),
                 usage := AList.delete keyToEvict (usage s),
                 currentSize := currentSize s - int (entry_size entry),
                 accessOrder := remove1 keyToEvict (accessOrder s)\<rparr>))"

text \<open>
  The loop of \<^verbatim>\<open>ensureSpace\<close>. It runs while the size or the entry budget is exceeded; an
  empty access order ends it with a reset of the cache. Nothing in the loop itself bounds the
  number of rounds (an eviction that finds no entry under the head key changes nothing), so a
  run that never ends is the value \<^const>\<open>None\<close>.
\<close>

partial_function (option) ensureSpace :: "int \<Rightarrow> 'm cache_state \<Rightarrow> 'm cache_state option" where
  "ensureSpace requiredSize s =
     (if real_of_int (currentSize s + requiredSize) > maxSize (config s)
         \<or> int (length (cache s)) \<ge> maxEntries (config s)
      then (if accessOrder s = [] then Some (clear (s\<lparr>trace := trace s @ [Warn_reset]\<rparr>))
            else ensureSpace requiredSize (evictLeastUsed s))
      else Some s)"

declare ensureSpace.simps [code]

text \<open>\<^verbatim>\<open>set\<close>. The metadata's quality tag is \<^verbatim>\<open>metadata.quality || 'unknown'\<close>; the empty
  string is falsy.\<close>

definition quality_tag :: "string option \<Rightarrow> string" where
  "quality_tag q = (case q of None \<Rightarrow> ''unknown'' | Some t \<Rightarrow> if t = [] then ''unknown'' else t)"

definition cache_set ::
  "'m env \<Rightarrow> string \<Rightarrow> 'm \<Rightarrow> string option \<Rightarrow> 'm cache_state \<Rightarrow> 'm cache_state option" where
  "cache_set env key m q s =
     (let sz = estimateModelSize env m in
      if real sz > maxSize (config s) * 0.5
      then Some (s\<lparr>trace := trace s @ [Warn_too_large key sz]\<rparr>)
      else (case ensureSpace (int sz) s of
              None \<Rightarrow> None
            | Some s1 \<Rightarrow>
                (let entry = \<lparr>model = m, entry_size = sz, lastAccess = now env, accessCount = 1,
                               quality = quality_tag q\<rparr>
                 in Some (updateAccessOrder key
                            (s1\<lparr>cache := AList.update key entry (cache s1),
                                usage := AList.update key entry (usage s1),
                                currentSize := currentSize s1 + int sz\<rparr>)))))"

text \<open>
  \<^verbatim>\<open>get\<close> suspends once, at \<^verbatim>\<open>await loader()\<close>. \<^verbatim>\<open>get_begin\<close> is the part that runs
  when the call is issued, up to and including the call of the loader; \<^verbatim>\<open>get_resume\<close> is the
  part that runs when the loader's promise has settled, with its outcome. Between the two the
  scheduler may run anything else, another \<^verbatim>\<open>get\<close> included. The second part is taken
  as one step. In the code it gives way again at each \<^verbatim>\<open>await\<close> inside \<^verbatim>\<open>set\<close>, so
  two calls whose loads settle together can also interleave there; what each call returns and
  how often the loader is called do not depend on that.
\<close>

datatype 'm lookup = Hit 'm | Miss

definition get_begin :: "'m env \<Rightarrow> string \<Rightarrow> 'm cache_state \<Rightarrow> 'm lookup \<times> 'm cache_state" where
  "get_begin env key s =
     (let s1 = s\<lparr>totalRequests := totalRequests s + 1\<rparr> in
      case map_of (cache s1) key of
        Some entry \<Rightarrow> (Hit (model entry), updateAccess env key (s1\<lparr>cacheHits := cacheHits s1 + 1\<rparr>))
      | None \<Rightarrow> (Miss, s1\<lparr>cacheMisses := cacheMisses s1 + 1,
                          trace := trace s1 @ [LoaderCall key]\<rparr>))"

definition get_resume ::
  "'m env \<Rightarrow> string \<Rightarrow> string option \<Rightarrow> error + 'm \<Rightarrow> 'm cache_state
     \<Rightarrow> ((error + 'm) \<times> 'm cache_state) option" where
  "get_resume env key q outcome s =
     (case outcome of
        Inr m \<Rightarrow>
          (case cache_set env key m q s of
             None \<Rightarrow> None
           | Some s1 \<Rightarrow> Some (Inr m, s1\<lparr>trace := trace s1 @ [Notify_load key]\<rparr>))
      | Inl err \<Rightarrow>
          Some (Inl err, s\<lparr>trace := trace s @ [Error_load key err, Notify_error key err]\<rparr>))"

text \<open>A call of \<^verbatim>\<open>get\<close> that nothing interleaves with; \<^verbatim>\<open>outcome\<close> is what the loader
  yields if it is called.\<close>

definition cache_get ::
  "'m env \<Rightarrow> string \<Rightarrow> error + 'm \<Rightarrow> string option \<Rightarrow> 'm cache_state
     \<Rightarrow> ((error + 'm) \<times> 'm cache_state) option" where
  "cache_get env key outcome q s =
     (case get_begin env key s of
        (Hit m, s1) \<Rightarrow> Some (Inr m, s1)
      | (Miss, s1) \<Rightarrow> get_resume env key q outcome s1)"

text \<open>
  Two calls of \<^verbatim>\<open>get\<close> for one key, the second issued while the first is suspended at its
  loader: both calls run their first part, then the first load settles and the first call
  resumes, then the second. A call that hit the cache has returned at once and has nothing to
  resume.
\<close>

definition settle ::
  "'m env \<Rightarrow> string \<Rightarrow> string option \<Rightarrow> 'm lookup \<Rightarrow> error + 'm \<Rightarrow> 'm cache_state
     \<Rightarrow> ((error + 'm) \<times> 'm cache_state) option" where
  "settle env key q l outcome s =
     (case l of Hit m \<Rightarrow> Some (Inr m, s) | Miss \<Rightarrow> get_resume env key q outcome s)"

definition concurrent_gets ::
  "'m env \<Rightarrow> string \<Rightarrow> string option \<Rightarrow> error + 'm \<Rightarrow> error + 'm \<Rightarrow> 'm cache_state
     \<Rightarrow> ((error + 'm) \<times> (error + 'm) \<times> 'm cache_state) option" where
  "concurrent_gets env key q outcome1 outcome2 s =
     (case get_begin env key s of
        (l1, s1) \<Rightarrow>
          (case get_begin env key s1 of
             (l2, s2) \<Rightarrow>
               (case settle env key q l1 outcome1 s2 of
                  None \<Rightarrow> None
                | Some (r1, s3) \<Rightarrow>
                    (case settle env key q l2 outcome2 s3 of
                       None \<Rightarrow> None
                     | Some (r2, s4) \<Rightarrow> Some (r1, r2, s4)))))"

text \<open>How often the loader was called for a key, and the sizes of the entries that are in
  the cache.\<close>

definition loaderCalls :: "string \<Rightarrow> 'm cache_state \<Rightarrow> nat" where
  "loaderCalls key s = count_list (trace s) (LoaderCall key)"

definition liveSize :: "'m cache_state \<Rightarrow> int" where
  "liveSize s = sum_list (map (\<lambda>(key, entry). int (entry_size entry)) (cache s))"

text \<open>
  Consistency of the access order with the table: no key twice, and every key of the order in
  the cache. The loop condition of \<^verbatim>\<open>ensureSpace\<close>, and the invariant that the
  specification states for the cache: the tracked size is the sum of the sizes of the entries,
  both tables hold the same entries, the access order lists exactly the keys, and both budgets
  are kept.
\<close>

definition access_consistent :: "'m cache_state \<Rightarrow> bool" where
  "access_consistent s =
     (distinct (accessOrder s) \<and> set (accessOrder s) \<subseteq> fst ` set (cache s))"

definition over_budget :: "int \<Rightarrow> 'm cache_state \<Rightarrow> bool" where
  "over_budget requiredSize s =
     (real_of_int (currentSize s + requiredSize) > maxSize (config s)
        \<or> int (length (cache s)) \<ge> maxEntries (config s))"

definition cache_invariant :: "'m cache_state \<Rightarrow> bool" where
  "cache_invariant s =
     (distinct (map fst (cache s)) \<and> distinct (accessOrder s)
      \<and> set (accessOrder s) = fst ` set (cache s)
      \<and> usage s = cache s
      \<and> currentSize s = liveSize s
      \<and> int (length (cache s)) \<le> maxEntries (config s)
      \<and> real_of_int (currentSize s) \<le> maxSize (config s))"

text \<open>The cache after a \<^verbatim>\<open>get\<close> that missed and whose loader failed: two counters went up,
  the loader was called, and the error was logged and notified.\<close>

definition load_failed :: "string \<Rightarrow> error \<Rightarrow> 'm cache_state \<Rightarrow> 'm cache_state" where
  "load_failed key err c =
     c\<lparr>totalRequests := totalRequests c + 1, cacheMisses := cacheMisses c + 1,
       trace := trace c @ [LoaderCall key, Error_load key err, Notify_error key err]\<rparr>"

definition cache_delete :: "string \<Rightarrow> 'm cache_state \<Rightarrow> bool \<times> 'm cache_state" where
  "cache_delete key s =
     (case map_of (cache s) key of
        None \<Rightarrow> (False, s)
      | Some entry \<Rightarrow>
          (True, s\<lparr>cache := AList.delete key (cache s),
                   usage := AList.delete key (usage s),
                   currentSize := currentSize s - int (entry_size entry),
                   accessOrder := remove1 key (accessOrder s),
                   trace := trace s @ [Notify_eviction key Manual]\<rparr>))"

text \<open>\<^verbatim>\<open>performMaintenance\<close>: entries older than five minutes that were accessed once are
  deleted, then one more entry is evicted when the size is above the threshold.\<close>

definition performMaintenance :: "'m env \<Rightarrow> 'm cache_state \<Rightarrow> 'm cache_state" where
  "performMaintenance env s =
     (let maxAge = 5 * 60 * 1000;
          keysToRemove = map fst (filter (\<lambda>(key, entry).
             int (now env) - int (lastAccess entry) > maxAge \<and> accessCount entry = 1) (usage s));
          s1 = fold (\<lambda>key t. snd (cache_delete key t)) keysToRemove s
      in if real_of_int (currentSize s1) > maxSize (config s1) * memoryThreshold (config s1)
         then evictLeastUsed s1 else s1)"

text \<open>
  The operations that change a cache, as values, and a run of a list of them one after the
  other with nothing interleaved: a \<^verbatim>\<open>get\<close> at a given time with the outcome its loader
  would have, a \<^verbatim>\<open>delete\<close>, an eviction, a maintenance pass at a given time.
\<close>

datatype 'm cache_op =
    Op_get nat string "error + 'm" "string option"
  | Op_delete string
  | Op_evict
  | Op_maintain nat

fun run_op :: "'m env \<Rightarrow> 'm cache_op \<Rightarrow> 'm cache_state \<Rightarrow> 'm cache_state option" where
  "run_op env (Op_get t key outcome q) s =
     map_option snd (cache_get (env\<lparr>now := t\<rparr>) key outcome q s)"
| "run_op env (Op_delete key) s = Some (snd (cache_delete key s))"
| "run_op env Op_evict s = Some (evictLeastUsed s)"
| "run_op env (Op_maintain t) s = Some (performMaintenance (env\<lparr>now := t\<rparr>) s)"

fun run_ops :: "'m env \<Rightarrow> 'm cache_op list \<Rightarrow> 'm cache_state \<Rightarrow> 'm cache_state option" where
  "run_ops env [] s = Some s"
| "run_ops env (op # ops) s =
     (case run_op env op s of None \<Rightarrow> None | Some s1 \<Rightarrow> run_ops env ops s1)"

text \<open>
  \<^verbatim>\<open>getLeastUsedEntries\<close> and \<^verbatim>\<open>getMostUsedEntries\<close>: the entries of \<^verbatim>\<open>usage\<close> sorted by
  access count and cut to \<^verbatim>\<open>count\<close>. \<^verbatim>\<open>Array.prototype.sort\<close> is stable, as
  \<^const>\<open>sort_key\<close> is.
\<close>

record usage_info =
  info_key :: string
  info_accessCount :: nat

definition getLeastUsedEntries :: "nat \<Rightarrow> 'm cache_state \<Rightarrow> usage_info list" where
  "getLeastUsedEntries count s =
     map (\<lambda>(key, entry). \<lparr>info_key = key, info_accessCount = accessCount entry\<rparr>)
       (take count (sort_key (\<lambda>(key, entry). int (accessCount entry)) (usage s)))"

definition getMostUsedEntries :: "nat \<Rightarrow> 'm cache_state \<Rightarrow> usage_info list" where
  "getMostUsedEntries count s =
     map (\<lambda>(key, entry). \<lparr>info_key = key, info_accessCount = accessCount entry\<rparr>)
       (take count (sort_key (\<lambda>(key, entry). - int (accessCount entry)) (usage s)))"

record cache_stats =
  size_current :: int
  size_max :: real
  entries_current :: nat
  entries_max :: int
  stat_totalRequests :: nat
  stat_cacheHits :: nat
  stat_cacheMisses :: nat
  mostUsed :: "usage_info list"
  leastUsed :: "usage_info list"

definition getStats :: "'m cache_state \<Rightarrow> cache_stats" where
  "getStats s =
     \<lparr>size_current = currentSize s, size_max = maxSize (config s),
      entries_current = length (cache s), entries_max = maxEntries (config s),
      stat_totalRequests = totalRequests s, stat_cacheHits = cacheHits s,
      stat_cacheMisses = cacheMisses s,
      mostUsed = getMostUsedEntries 5 s, leastUsed = getLeastUsedEntries 5 s\<rparr>"

section \<open>LODManager\<close>

text \<open>
  An element handle is a reference to a display node that the manager does not own. The node's
  state is what the manager reads and writes through the handle: the object set under
  \<^verbatim>\<open>'mesh'\<close> (a clone of a model, scaled by the tier it was attached for) and the
  \<^verbatim>\<open>visible\<close> attribute. Registration takes any node (the one passed in, or whatever
  \<^verbatim>\<open>document.getElementById\<close> finds), and only an A-Frame entity has the methods
  \<^verbatim>\<open>getObject3D\<close>, \<^verbatim>\<open>removeObject3D\<close> and \<^verbatim>\<open>setObject3D\<close>. On any other node
  the first such call throws; on an entity the calls are taken to succeed.
\<close>

record 'm element_state =
  mesh :: "('m \<times> quality) option"
  visible :: bool
  is_entity :: bool

record modelConfig =
  entityId :: string
  paths :: "(quality \<times> string) list"
  lodDistances :: lod_distances
  currentQuality :: "quality option"
  isLoaded :: bool
  isVisible :: bool
  lastUpdate :: nat
  config_memoryUsage :: nat
  priority :: int
  preload :: bool
  element :: "string option"

record lod_config =
  distances :: lod_distances
  targetFPS :: real
  autoOptimize :: bool
  maxActiveModels :: int

record reg_options =
  opt_lodDistances :: "lod_distances option"
  opt_priority :: "int option"
  opt_preload :: "bool option"
  opt_element :: "string option"

text \<open>The manager's own effects: notifications to its subscribers and console warnings and
  errors.\<close>

datatype 'm lod_effect =
    Notify_qualityChange string "quality option" quality 'm
  | Notify_modelLoad string
  | Notify_optimizationStart
  | Notify_optimizationEnd
  | Error_changeQuality string error
  | Error_optimization error
  | Warn_preload string error

text \<open>
  The state of a manager: its configuration, its cache, the registry \<^verbatim>\<open>activeModels\<close>, its
  flags and counters, the display nodes it holds handles to, and the errors of display nodes
  that \<^verbatim>\<open>applyModelToElement\<close> caught and logged. The performance monitor and
  the device detector are objects of their own; what the manager takes from them comes in as
  an argument (the current metrics) or from the environment (the recommended settings).
\<close>

record 'm lod_state =
  lod_config :: lod_config
  modelCache :: "'m cache_state"
  activeModels :: "(string \<times> modelConfig) list"
  isInitialized :: bool
  isOptimizing :: bool
  modelsRegistered :: nat
  qualityChanges :: nat
  optimizationRuns :: nat
  display :: "string \<Rightarrow> 'm element_state"
  display_errors :: "(string \<times> error) list"
  lod_trace :: "'m lod_effect list"

text \<open>The constructor, with the default configuration and a cache of the given budgets.\<close>

definition default_lod_config :: lod_config where
  "default_lod_config =
     \<lparr>distances = \<lparr>near = Num 3, medium = Num 8, far = Num 15\<rparr>, targetFPS = 30,
      autoOptimize = True, maxActiveModels = 10\<rparr>"

definition new_LODManager :: "cache_config \<Rightarrow> (string \<Rightarrow> 'm element_state) \<Rightarrow> 'm lod_state" where
  "new_LODManager cache_cfg nodes =
     \<lparr>lod_config = default_lod_config,
      modelCache = new_ModelCache cache_cfg,
      activeModels = [],
      isInitialized = False,
      isOptimizing = False,
      modelsRegistered = 0,
      qualityChanges = 0,
      optimizationRuns = 0,
      display = nodes,
      display_errors = [],
      lod_trace = []\<rparr>"

definition lookupModel :: "string \<Rightarrow> 'm lod_state \<Rightarrow> modelConfig option" where
  "lookupModel entId s = map_of (activeModels s) entId"

text \<open>Reading an array beyond its end gives \<^verbatim>\<open>undefined\<close>, which compares like NaN.\<close>

definition js_index :: "jsnum list \<Rightarrow> nat \<Rightarrow> jsnum" where
  "js_index xs i = (if i < length xs then xs ! i else NaN)"

definition adjustConfigForDevice :: "recommendedSettings \<Rightarrow> 'm lod_state \<Rightarrow> 'm lod_state" where
  "adjustConfigForDevice settings s =
     s\<lparr>lod_config := (lod_config s)
          \<lparr>distances := \<lparr>near = js_index (rs_lodDistances settings) 0,
                          medium = js_index (rs_lodDistances settings) 1,
                          far = js_index (rs_lodDistances settings) 2\<rparr>,
           targetFPS := rs_targetFPS settings,
           maxActiveModels := rs_maxModels settings\<rparr>,
       modelCache := (modelCache s)
          \<lparr>config := (config (modelCache s))\<lparr>maxSize := rs_cacheSize settings\<rparr>\<rparr>\<rparr>"

definition initialize :: "'m env \<Rightarrow> 'm lod_state \<Rightarrow> 'm lod_state" where
  "initialize env s =
     (if isInitialized s then s
      else (adjustConfigForDevice (deviceSettings env) s)\<lparr>isInitialized := True\<rparr>)"

text \<open>A source path is usable when the property exists and is truthy: the empty string is
  not.\<close>

definition path_of :: "modelConfig \<Rightarrow> quality \<Rightarrow> string option" where
  "path_of cfg q =
     (case map_of (paths cfg) q of None \<Rightarrow> None | Some p \<Rightarrow> if p = [] then None else Some p)"

definition cacheKey :: "string \<Rightarrow> quality \<Rightarrow> string" where
  "cacheKey entId q = entId @ ''_'' @ quality_name q"

definition preloadModel ::
  "'m env \<Rightarrow> string \<Rightarrow> quality \<Rightarrow> 'm lod_state \<Rightarrow> ((error + 'm) \<times> 'm lod_state) option" where
  "preloadModel env entId q s =
     (case map_of (activeModels s) entId of
        None \<Rightarrow> Some (Inl (ModelNotFound entId q), s)
      | Some cfg \<Rightarrow>
          (case path_of cfg q of
             None \<Rightarrow> Some (Inl (ModelNotFound entId q), s)
           | Some path \<Rightarrow>
               (case cache_get env (cacheKey entId q) (loadGLTF env path)
                       (Some (quality_name q)) (modelCache s) of
                  None \<Rightarrow> None
                | Some (r, c) \<Rightarrow> Some (r, s\<lparr>modelCache := c\<rparr>))))"

text \<open>
  \<^verbatim>\<open>applyModelToElement\<close> works on the node inside \<^verbatim>\<open>try\<close>: its first call is
  \<^verbatim>\<open>getObject3D\<close>, so on a node that is no entity nothing is written and the error is
  caught and logged.
\<close>

definition applyModelToElement ::
  "string \<Rightarrow> 'm \<Rightarrow> quality \<Rightarrow> 'm lod_state \<Rightarrow> 'm lod_state" where
  "applyModelToElement el m q s =
     (if is_entity (display s el)
      then s\<lparr>display := (display s)(el := (display s el)\<lparr>mesh := Some (m, q), visible := True\<rparr>)\<rparr>
      else s\<lparr>display_errors := display_errors s @ [(el, NodeError el)]\<rparr>)"

fun tier :: "quality \<Rightarrow> nat" where
  "tier Low = 0"
| "tier Medium = 1"
| "tier High = 2"

text \<open>
  \<^verbatim>\<open>changeModelQuality\<close>. The \<^verbatim>\<open>catch\<close> block receives only what \<^verbatim>\<open>preloadModel\<close>
  throws: \<^verbatim>\<open>applyModelToElement\<close> and \<^verbatim>\<open>notifyCallbacks\<close> catch their own errors. The
  fallback calls the function again one tier down.
\<close>

function changeModelQuality ::
  "'m env \<Rightarrow> string \<Rightarrow> quality \<Rightarrow> 'm lod_state \<Rightarrow> 'm lod_state option" where
  "changeModelQuality env entId targetQuality s =
     (case map_of (activeModels s) entId of
        None \<Rightarrow> Some s
      | Some cfg \<Rightarrow>
          (case path_of cfg targetQuality of
             None \<Rightarrow> Some s
           | Some _ \<Rightarrow>
               (case preloadModel env entId targetQuality s of
                  None \<Rightarrow> None
                | Some (Inr m, s1) \<Rightarrow>
                    (let previousQuality = currentQuality cfg;
                         s2 = (case element cfg of
                                 None \<Rightarrow> s1
                               | Some el \<Rightarrow> applyModelToElement el m targetQuality s1)
                     in Some (s2\<lparr>activeModels :=
                                  AList.map_entry entId
                                    (\<lambda>c. c\<lparr>currentQuality := Some targetQuality, isLoaded := True\<rparr>)
                                    (activeModels s2),
                                qualityChanges := qualityChanges s2 + 1,
                                lod_trace := lod_trace s2 @
                                  [Notify_qualityChange entId previousQuality targetQuality m]\<rparr>))
                | Some (Inl err, s1) \<Rightarrow>
                    (let s2 = s1\<lparr>lod_trace := lod_trace s1 @ [Error_changeQuality entId err]\<rparr>
                     in if targetQuality = High then changeModelQuality env entId Medium s2
                        else if targetQuality = Medium then changeModelQuality env entId Low s2
                        else Some s2))))"
  by pat_completeness auto
termination
  by (relation "measure (\<lambda>(env, entId, targetQuality, s). tier targetQuality)") auto

declare changeModelQuality.simps [simp del]

text \<open>
  \<^verbatim>\<open>unloadModel\<close> makes the same calls on the node with no \<^verbatim>\<open>try\<close> around them. Its
  first call is \<^verbatim>\<open>getObject3D\<close> again, so on a node that is no entity the function throws
  before it has written anything. The result is the exception, if one was thrown, and the
  state that the call leaves behind.
\<close>

definition unloadModel :: "string \<Rightarrow> 'm lod_state \<Rightarrow> error option \<times> 'm lod_state" where
  "unloadModel entId s =
     (case map_of (activeModels s) entId of
        None \<Rightarrow> (None, s)
      | Some cfg \<Rightarrow>
          (case (case element cfg of
                   None \<Rightarrow> (None, s)
                 | Some el \<Rightarrow>
                     if is_entity (display s el)
                     then (None, s\<lparr>display := (display s)
                                      (el := (display s el)\<lparr>mesh := None, visible := False\<rparr>)\<rparr>)
                     else (Some (NodeError el), s)) of
             (Some err, s1) \<Rightarrow> (Some err, s1)
           | (None, s1) \<Rightarrow>
               (None, s1\<lparr>activeModels :=
                            AList.map_entry entId
                              (\<lambda>c. c\<lparr>isLoaded := False, currentQuality := None\<rparr>)
                              (activeModels s1)\<rparr>)))"

text \<open>
  \<^verbatim>\<open>registerModel\<close>. \<^verbatim>\<open>options.priority || 5\<close> takes 5 for a missing or zero priority,
  \<^verbatim>\<open>options.preload !== false\<close> is true unless the option is the boolean false, and the
  element is the one passed in or else the DOM node with the entity's id.
\<close>

definition registerModel ::
  "'m env \<Rightarrow> string \<Rightarrow> (quality \<times> string) list \<Rightarrow> reg_options \<Rightarrow> 'm lod_state
     \<Rightarrow> 'm lod_state option" where
  "registerModel env entId modelPaths options s =
     (let s0 = (if \<not> isInitialized s then initialize env s else s);
          modelConfig =
            \<lparr>entityId = entId,
             paths = modelPaths,
             lodDistances = (case opt_lodDistances options of
                               Some d \<Rightarrow> d | None \<Rightarrow> distances (lod_config s0)),
             currentQuality = None,
             isLoaded = False,
             isVisible = False,
             lastUpdate = 0,
             config_memoryUsage = 0,
             priority = (case opt_priority options of
                           Some p \<Rightarrow> if p = 0 then 5 else p | None \<Rightarrow> 5),
             preload = (opt_preload options \<noteq> Some False),
             element = (case opt_element options of
                          Some el \<Rightarrow> Some el | None \<Rightarrow> getElementById env entId)\<rparr>;
          s1 = s0\<lparr>activeModels := AList.update entId modelConfig (activeModels s0),
                  modelsRegistered := modelsRegistered s0 + 1\<rparr>
      in case (if preload modelConfig \<and> path_of modelConfig Low \<noteq> None
               then (case preloadModel env entId Low s1 of
                       None \<Rightarrow> None
                     | Some (Inr _, s2) \<Rightarrow> Some s2
                     | Some (Inl err, s2) \<Rightarrow>
                         Some (s2\<lparr>lod_trace := lod_trace s2 @ [Warn_preload entId err]\<rparr>))
               else Some s1) of
           None \<Rightarrow> None
         | Some s3 \<Rightarrow> Some (s3\<lparr>lod_trace := lod_trace s3 @ [Notify_modelLoad entId]\<rparr>))"

text \<open>
  \<^verbatim>\<open>performMemoryCleanup\<close>: a quarter, rounded up, of the list \<^verbatim>\<open>leastUsed\<close> of the cache
  statistics is deleted from the cache, from the front of the list.
\<close>

definition performMemoryCleanup :: "'m lod_state \<Rightarrow> 'm lod_state" where
  "performMemoryCleanup s =
     (let cacheStats = getStats (modelCache s);
          candidates = leastUsed cacheStats;
          itemsToRemove = nat \<lceil>real (length candidates) * 0.25\<rceil>
      in s\<lparr>modelCache :=
             fold (\<lambda>info c. snd (cache_delete (info_key info) c))
               (take itemsToRemove candidates) (modelCache s)\<rparr>)"

text \<open>
  Following the specification's words, not the code: the least-recently-used 25% of the
  cache's entries, the count rounded up. It is here to be compared with what
  \<^verbatim>\<open>performMemoryCleanup\<close> deletes.
\<close>

definition spec_lru_quarter :: "'m cache_state \<Rightarrow> string list" where
  "spec_lru_quarter c = take (nat \<lceil>real (length (accessOrder c)) * 0.25\<rceil>) (accessOrder c)"

text \<open>The first loop of \<^verbatim>\<open>applyPerformanceOptimizations\<close>, over the assets that were visible
  and loaded when it started: each goes one tier down.\<close>

fun degrade_each :: "'m env \<Rightarrow> string list \<Rightarrow> 'm lod_state \<Rightarrow> 'm lod_state option" where
  "degrade_each env [] s = Some s"
| "degrade_each env (entId # rest) s =
     (case map_of (activeModels s) entId of
        None \<Rightarrow> degrade_each env rest s
      | Some cfg \<Rightarrow>
          (case (if currentQuality cfg = Some High then changeModelQuality env entId Medium s
                 else if currentQuality cfg = Some Medium then changeModelQuality env entId Low s
                 else Some s) of
             None \<Rightarrow> None
           | Some s1 \<Rightarrow> degrade_each env rest s1))"

text \<open>The second loop unloads the assets that are invisible and idle for more than 30 seconds.
  An exception out of \<^verbatim>\<open>unloadModel\<close> ends the loop and the function.\<close>

fun unload_each :: "string list \<Rightarrow> 'm lod_state \<Rightarrow> error option \<times> 'm lod_state" where
  "unload_each [] s = (None, s)"
| "unload_each (entId # rest) s =
     (case unloadModel entId s of
        (Some err, s1) \<Rightarrow> (Some err, s1)
      | (None, s1) \<Rightarrow> unload_each rest s1)"

definition applyPerformanceOptimizations ::
  "'m env \<Rightarrow> 'm lod_state \<Rightarrow> (error option \<times> 'm lod_state) option" where
  "applyPerformanceOptimizations env s =
     (case degrade_each env
             (map fst (filter (\<lambda>(entId, cfg). isVisible cfg \<and> isLoaded cfg) (activeModels s))) s of
        None \<Rightarrow> None
      | Some s1 \<Rightarrow>
          (let maxIdleTime = 30000;
               idle = map fst (filter (\<lambda>(entId, cfg).
                        \<not> isVisible cfg \<and> int (now env) - int (lastUpdate cfg) > maxIdleTime)
                        (activeModels s1))
           in Some (unload_each idle s1)))"

text \<open>
  \<^verbatim>\<open>optimizeForPerformance\<close>, on the metrics that \<^verbatim>\<open>getCurrentMetrics\<close> returns when the
  run starts: the averaged frame rate and the memory percentage. The numbers are read as
  reals. \<^verbatim>\<open>optimization_phase\<close> is the run up to the memory check: the bookkeeping at the
  start and, on a low frame rate, \<^verbatim>\<open>applyPerformanceOptimizations\<close>, with the exception
  that this ended in, if any. An exception is caught and logged, and the memory check is then
  skipped; the \<^verbatim>\<open>finally\<close> block runs in either case.
\<close>

record metrics_reading =
  reading_fps :: real
  reading_memory_percentage :: real

definition optimization_phase ::
  "'m env \<Rightarrow> real option \<Rightarrow> metrics_reading \<Rightarrow> 'm lod_state
     \<Rightarrow> (error option \<times> 'm lod_state) option" where
  "optimization_phase env requestedFPS currentMetrics s =
     (let s1 = s\<lparr>isOptimizing := True,
                 optimizationRuns := optimizationRuns s + 1,
                 lod_trace := lod_trace s @ [Notify_optimizationStart]\<rparr>;
          target = (case requestedFPS of
                      None \<Rightarrow> targetFPS (lod_config s1)
                    | Some t \<Rightarrow> if t = 0 then targetFPS (lod_config s1) else t)
      in if reading_fps currentMetrics < target * 0.8
         then applyPerformanceOptimizations env s1 else Some (None, s1))"

definition optimizeForPerformance ::
  "'m env \<Rightarrow> real option \<Rightarrow> metrics_reading \<Rightarrow> 'm lod_state \<Rightarrow> 'm lod_state option" where
  "optimizeForPerformance env requestedFPS currentMetrics s =
     (if isOptimizing s then Some s
      else
        (case optimization_phase env requestedFPS currentMetrics s of
           None \<Rightarrow> None
         | Some (raised, s2) \<Rightarrow>
             (let s3 = (case raised of
                          Some err \<Rightarrow> s2\<lparr>lod_trace := lod_trace s2 @ [Error_optimization err]\<rparr>
                        | None \<Rightarrow>
                            if reading_memory_percentage currentMetrics > 80
                            then performMemoryCleanup s2 else s2)
              in Some (s3\<lparr>isOptimizing := False,
                          lod_trace := lod_trace s3 @ [Notify_optimizationEnd]\<rparr>))))"

section \<open>PerformanceMonitor\<close>

text \<open>
  The metrics of the monitor are an object whose \<^verbatim>\<open>memoryUsage\<close> property is another
  object, and the question is who shares what. So objects live in a store, at addresses; a
  property holds a number or the address of an object. An object is the list of its own
  properties, in creation order.
\<close>

datatype jsval = VNum real | VRef nat

type_synonym jsobj = "(string \<times> jsval) list"

definition alloc :: "jsobj \<Rightarrow> jsobj list \<Rightarrow> nat \<times> jsobj list" where
  "alloc obj h = (length h, h @ [obj])"

text \<open>The own properties of the object at an address, as the spread \<^verbatim>\<open>{ ...x }\<close> copies
  them: each property with the value it holds, an address staying an address.\<close>

definition spread :: "jsobj list \<Rightarrow> nat \<Rightarrow> jsobj" where
  "spread h a = (if a < length h then h ! a else [])"

definition read_prop :: "jsobj list \<Rightarrow> nat \<Rightarrow> string \<Rightarrow> jsval option" where
  "read_prop h a f = map_of (spread h a) f"

definition write_prop :: "jsobj list \<Rightarrow> nat \<Rightarrow> string \<Rightarrow> jsval \<Rightarrow> jsobj list" where
  "write_prop h a f v = (if a < length h then h[a := AList.update f v (h ! a)] else h)"

datatype severity = Severity_low | Severity_medium | Severity_high | Severity_critical

datatype issue_type = Low_fps | High_memory | Slow_render

record issue =
  issue_type :: issue_type
  severity :: severity

datatype recommendation =
    Reduce_model_quality | Reduce_active_models | Optimize_lod_distances | Clear_cache
  | Unload_distant_models | Reduce_draw_calls | Optimize_materials

record monitor_state =
  heap :: "jsobj list"
  currentMetrics :: nat
  consecutiveIssues :: nat

text \<open>The constructor creates the metrics object and, inside it, the memory-usage object.\<close>

definition new_PerformanceMonitor :: monitor_state where
  "new_PerformanceMonitor =
     (let (mu, h1) = alloc [(''used'', VNum 0), (''total'', VNum 0), (''percentage'', VNum 0)] [];
          (cm, h2) = alloc [(''fps'', VNum 0), (''memoryUsage'', VRef mu), (''renderTime'', VNum 0),
                            (''loadTime'', VNum 0), (''activeModels'', VNum 0),
                            (''cacheHitRate'', VNum 0)] h1
      in \<lparr>heap = h2, currentMetrics = cm, consecutiveIssues = 0\<rparr>)"

text \<open>\<^verbatim>\<open>getCurrentMetrics\<close> returns \<^verbatim>\<open>{ ...this.currentMetrics }\<close>: a new object with the
  properties of the metrics object.\<close>

definition getCurrentMetrics :: "monitor_state \<Rightarrow> nat \<times> monitor_state" where
  "getCurrentMetrics st =
     (let (snapshot, h) = alloc (spread (heap st) (currentMetrics st)) (heap st)
      in (snapshot, st\<lparr>heap := h\<rparr>))"

text \<open>\<^verbatim>\<open>updateMemoryMetrics\<close> stores a new memory-usage object in the metrics object. The
  reading of the memory comes from the browser, and the percentage is the number that
  \<^verbatim>\<open>Math.round\<close> yields for the quotient computed in double arithmetic.\<close>

definition updateMemoryMetrics :: "real \<Rightarrow> real \<Rightarrow> real \<Rightarrow> monitor_state \<Rightarrow> monitor_state" where
  "updateMemoryMetrics used_bytes total_bytes rounded_percentage st =
     (let (mu, h) = alloc [(''used'', VNum used_bytes), (''total'', VNum total_bytes),
                           (''percentage'', VNum rounded_percentage)] (heap st)
      in st\<lparr>heap := write_prop h (currentMetrics st) ''memoryUsage'' (VRef mu)\<rparr>)"

text \<open>\<^verbatim>\<open>generateRecommendations\<close>; \<^verbatim>\<open>[...new Set(xs)]\<close> keeps the first occurrence of each
  recommendation.\<close>

definition generateRecommendations :: "issue list \<Rightarrow> recommendation list" where
  "generateRecommendations issues =
     rev (remdups (rev (concat (map (\<lambda>i.
        (case issue_type i of
           Low_fps \<Rightarrow>
             (if severity i = Severity_critical then [Reduce_model_quality, Reduce_active_models]
              else if severity i = Severity_high then [Optimize_lod_distances]
              else [])
         | High_memory \<Rightarrow>
             Clear_cache # (if severity i = Severity_critical then [Unload_distant_models] else [])
         | Slow_render \<Rightarrow> [Reduce_draw_calls, Optimize_materials])) issues))))"

text \<open>
  What code outside the monitor can do to an object it was handed: assign to one of its
  properties (\<^verbatim>\<open>x.f = v\<close>), or assign to a property of the object that one of its
  properties refers to (\<^verbatim>\<open>x.f.g = v\<close>). The second is a no-op when \<^verbatim>\<open>x.f\<close> is a number.
\<close>

datatype mutation = Assign string jsval | AssignNested string string jsval

fun mutate :: "nat \<Rightarrow> mutation \<Rightarrow> jsobj list \<Rightarrow> jsobj list" where
  "mutate a (Assign f v) h = write_prop h a f v"
| "mutate a (AssignNested f g v) h =
     (case read_prop h a f of Some (VRef b) \<Rightarrow> write_prop h b g v | _ \<Rightarrow> h)"

text \<open>
  \<^verbatim>\<open>notifyPerformanceIssues\<close> builds a notification whose \<^verbatim>\<open>metrics\<close> is again a spread of
  the metrics object and hands it to every callback in turn. A callback is given here by the
  assignments it makes through the metrics it received.
\<close>

record notification =
  note_issues :: "issue list"
  consecutiveCount :: nat
  note_metrics :: nat
  recommendations :: "recommendation list"

definition notifyPerformanceIssues ::
  "issue list \<Rightarrow> mutation list list \<Rightarrow> monitor_state \<Rightarrow> notification \<times> monitor_state" where
  "notifyPerformanceIssues issues callbacks st =
     (let (metrics, h) = alloc (spread (heap st) (currentMetrics st)) (heap st);
          note = \<lparr>note_issues = issues, consecutiveCount = consecutiveIssues st,
                  note_metrics = metrics, recommendations = generateRecommendations issues\<rparr>
      in (note, st\<lparr>heap := fold (\<lambda>callback h'. fold (mutate metrics) callback h') callbacks h\<rparr>))"

text \<open>The monitor's metrics as the monitor itself reads them: every property of the metrics
  object, with the properties of the object behind it where it holds an address.\<close>

datatype view = Number real | Object jsobj

definition observed_metrics :: "monitor_state \<Rightarrow> (string \<times> view) list" where
  "observed_metrics st =
     map (\<lambda>(f, v). (f, case v of VNum x \<Rightarrow> Number x | VRef b \<Rightarrow> Object (spread (heap st) b)))
       (spread (heap st) (currentMetrics st))"

text \<open>Every address that the monitor's metrics hold is the address of an object of the
  store.\<close>

definition refs_allocated :: "monitor_state \<Rightarrow> bool" where
  "refs_allocated st =
     (currentMetrics st < length (heap st)
      \<and> list_all (\<lambda>(f, v). case v of VNum x \<Rightarrow> True | VRef b \<Rightarrow> b < length (heap st))
           (spread (heap st) (currentMetrics st)))"

text \<open>A caller takes the metrics with \<^verbatim>\<open>getCurrentMetrics\<close> and makes one assignment
  through what it got.\<close>

definition after_caller_mutation :: "mutation \<Rightarrow> monitor_state \<Rightarrow> monitor_state" where
  "after_caller_mutation mu st =
     (case getCurrentMetrics st of
        (snapshot, st1) \<Rightarrow> st1\<lparr>heap := mutate snapshot mu (heap st1)\<rparr>)"

section \<open>Concrete instances\<close>

text \<open>
  An environment for running the definitions: a model is a number, its own estimated size in
  bytes; only the path \<^verbatim>\<open>low.glb\<close> loads (a model of 10 bytes), every other path is
  rejected; no DOM node exists; the device is the detector's fallback device.
\<close>

definition ex_env :: "nat env" where
  "ex_env =
     \<lparr>estimateModelSize = (\<lambda>m. m),
      loadGLTF = (\<lambda>path. if path = ''low.glb'' then Inr 10 else Inl (LoadError path)),
      now = 1000,
      getElementById = (\<lambda>_. None),
      deviceSettings = \<lparr>rs_maxModels = 2, rs_lodDistances = [Num 2, Num 5, Num 10],
                         rs_cacheSize = 50 * 1024 * 1024, rs_targetFPS = 24\<rparr>\<rparr>"

text \<open>A cache of 100 bytes and 3 entries.\<close>

definition small_cache :: "nat cache_state" where
  "small_cache = new_ModelCache \<lparr>maxSize = 100, maxEntries = 3, memoryThreshold = 0.8\<rparr>"

text \<open>
  A manager with that cache whose registry holds one asset, \<^verbatim>\<open>tree\<close>, registered with the
  given source paths and not loaded yet, attached to the display node \<^verbatim>\<open>tree\<close>; and an
  environment in which no path loads.
\<close>

definition ex_manager :: "nat lod_state" where
  "ex_manager =
     new_LODManager \<lparr>maxSize = 100, maxEntries = 3, memoryThreshold = 0.8\<rparr>
       (\<lambda>_. \<lparr>mesh = None, visible = True, is_entity = True\<rparr>)"

definition ex_asset :: "(quality \<times> string) list \<Rightarrow> modelConfig" where
  "ex_asset ps =
     \<lparr>entityId = ''tree'', paths = ps,
      lodDistances = \<lparr>near = Num 3, medium = Num 8, far = Num 15\<rparr>,
      currentQuality = None, isLoaded = False, isVisible = False, lastUpdate = 0,
      config_memoryUsage = 0, priority = 5, preload = False, element = Some ''tree''\<rparr>"

definition ex_registered :: "(quality \<times> string) list \<Rightarrow> nat lod_state" where
  "ex_registered ps =
     ex_manager\<lparr>isInitialized := True, activeModels := [(''tree'', ex_asset ps)],
                modelsRegistered := 1\<rparr>"

definition all_tiers :: "(quality \<times> string) list" where
  "all_tiers = [(High, ''high.glb''), (Medium, ''medium.glb''), (Low, ''low.glb'')]"

definition two_tiers :: "(quality \<times> string) list" where
  "two_tiers = [(High, ''high.glb''), (Low, ''low.glb'')]"

definition failing_env :: "nat env" where
  "failing_env = ex_env\<lparr>loadGLTF := (\<lambda>path. Inl (LoadError path))\<rparr>"

definition no_options :: reg_options where
  "no_options =
     \<lparr>opt_lodDistances = None, opt_priority = None, opt_preload = None, opt_element = None\<rparr>"

text \<open>
  A cache in which recency and frequency disagree: \<^verbatim>\<open>a\<close> was stored and read once more,
  then \<^verbatim>\<open>b\<close> was stored. \<^verbatim>\<open>a\<close> is the least recently used entry, \<^verbatim>\<open>b\<close> the
  least often used one.
\<close>

definition skewed_cache :: "nat cache_state" where
  "skewed_cache =
     \<lparr>config = \<lparr>maxSize = 100, maxEntries = 3, memoryThreshold = 0.8\<rparr>,
      cache = [(''a'', \<lparr>model = 10, entry_size = 10, lastAccess = 1000, accessCount = 2,
                        quality = ''unknown''\<rparr>),
               (''b'', \<lparr>model = 10, entry_size = 10, lastAccess = 1000, accessCount = 1,
                        quality = ''unknown''\<rparr>)],
      usage = [(''a'', \<lparr>model = 10, entry_size = 10, lastAccess = 1000, accessCount = 2,
                        quality = ''unknown''\<rparr>),
               (''b'', \<lparr>model = 10, entry_size = 10, lastAccess = 1000, accessCount = 1,
                        quality = ''unknown''\<rparr>)],
      accessOrder = [''a'', ''b''], currentSize = 20, totalRequests = 1, cacheHits = 1,
      cacheMisses = 0, trace = []\<rparr>"

definition skewed_manager :: "nat lod_state" where
  "skewed_manager = ex_manager\<lparr>modelCache := skewed_cache, isInitialized := True\<rparr>"

text \<open>The registry above where the display nodes are plain DOM elements, not A-Frame
  entities; and the same manager over the cache above, at a time when the asset has been idle
  for more than 30 seconds.\<close>

definition plain_node_registered :: "nat lod_state" where
  "plain_node_registered =
     (ex_registered all_tiers)
       \<lparr>display := (\<lambda>_. \<lparr>mesh = None, visible = True, is_entity = False\<rparr>)\<rparr>"

definition idle_plain_manager :: "nat lod_state" where
  "idle_plain_manager = plain_node_registered\<lparr>modelCache := skewed_cache\<rparr>"

definition later_env :: "nat env" where
  "later_env = ex_env\<lparr>now := 40000\<rparr>"

section \<open>Properties\<close>

lemma js_not_le_lt: "js_lt a b \<Longrightarrow> js_le d b \<Longrightarrow> \<not> js_le d a \<Longrightarrow> js_lt a d"
  by (cases a; cases b; cases d) auto

lemma js_lt_not_le: "js_lt a d \<Longrightarrow> \<not> js_le d a"
  by (cases a; cases d) auto

text \<open>
  Claim C3. For every distance and every threshold configuration with near < medium < far,
  the decision function returns High exactly when the distance is at most near, Medium exactly
  when it is above near and at most medium, and Low in every other case (a NaN distance
  included). The boundaries belong to the nearer tier: a distance equal to near gives High and
  a distance equal to medium gives Medium.
\<close>

theorem determineQuality_rule:
  "js_lt (near ld) (medium ld) \<and> js_lt (medium ld) (far ld) \<Longrightarrow>
     (js_le d (near ld) \<longrightarrow> determineQuality d ld = High) \<and>
     (js_lt (near ld) d \<and> js_le d (medium ld) \<longrightarrow> determineQuality d ld = Medium) \<and>
     (\<not> js_le d (near ld) \<and> \<not> (js_lt (near ld) d \<and> js_le d (medium ld))
        \<longrightarrow> determineQuality d ld = Low) \<and>
     determineQuality (near ld) ld = High \<and>
     determineQuality (medium ld) ld = Medium"
proof -
  assume a: "js_lt (near ld) (medium ld) \<and> js_lt (medium ld) (far ld)"
  have 1: "js_le d (near ld) \<longrightarrow> determineQuality d ld = High"
    by (simp add: determineQuality_def)
  have 2: "js_lt (near ld) d \<and> js_le d (medium ld) \<longrightarrow> determineQuality d ld = Medium"
    using js_lt_not_le [of "near ld" d] by (auto simp: determineQuality_def)
  have 3: "\<not> js_le d (near ld) \<and> \<not> (js_lt (near ld) d \<and> js_le d (medium ld))
        \<longrightarrow> determineQuality d ld = Low"
    using a js_not_le_lt [of "near ld" "medium ld" d] by (auto simp: determineQuality_def)
  have 4: "determineQuality (near ld) ld = High"
    using a by (cases "near ld"; cases "medium ld") (auto simp: determineQuality_def)
  have 5: "determineQuality (medium ld) ld = Medium"
    using a by (cases "near ld"; cases "medium ld"; cases "far ld")
      (auto simp: determineQuality_def)
  from 1 2 3 4 5 show ?thesis by blast
qed

text \<open>
  The table of the specification, on the default thresholds 3 < 8 < 15: distance 1 gives High,
  distance 5 gives Medium, distance 20 gives Low, and the two boundaries 3 and 8 give High and
  Medium.
\<close>

theorem determineQuality_rule_witness:
  "js_lt (Num 3) (Num 8) \<and> js_lt (Num 8) (Num 15) \<and>
   js_le (Num 1) (Num 3) \<and>
   determineQuality (Num 1) \<lparr>near = Num 3, medium = Num 8, far = Num 15\<rparr> = High \<and>
   js_lt (Num 3) (Num 5) \<and> js_le (Num 5) (Num 8) \<and>
   determineQuality (Num 5) \<lparr>near = Num 3, medium = Num 8, far = Num 15\<rparr> = Medium \<and>
   \<not> js_le (Num 20) (Num 3) \<and> \<not> (js_lt (Num 3) (Num 20) \<and> js_le (Num 20) (Num 8)) \<and>
   determineQuality (Num 20) \<lparr>near = Num 3, medium = Num 8, far = Num 15\<rparr> = Low \<and>
   determineQuality (Num 3) \<lparr>near = Num 3, medium = Num 8, far = Num 15\<rparr> = High \<and>
   determineQuality (Num 8) \<lparr>near = Num 3, medium = Num 8, far = Num 15\<rparr> = Medium"
  using determineQuality_rule [of "\<lparr>near = Num 3, medium = Num 8, far = Num 15\<rparr>" "Num 1"]
    determineQuality_rule [of "\<lparr>near = Num 3, medium = Num 8, far = Num 15\<rparr>" "Num 5"]
    determineQuality_rule [of "\<lparr>near = Num 3, medium = Num 8, far = Num 15\<rparr>" "Num 20"]
  by simp

subsection \<open>The cache: termination of the eviction loop\<close>

lemma map_of_None_iff_keys: "(map_of xs k = None) = (k \<notin> fst ` set xs)"
  by (simp add: map_of_eq_None_iff)

lemma keys_delete: "fst ` set (AList.delete k xs) = fst ` set xs - {k}"
  by (induction xs) auto

lemma evict_step:
  assumes "access_consistent s" and "accessOrder s \<noteq> []"
  shows "access_consistent (evictLeastUsed s)"
    and "length (accessOrder (evictLeastUsed s)) < length (accessOrder s)"
    and "config (evictLeastUsed s) = config s"
proof -
  obtain k ks where ks: "accessOrder s = k # ks"
    using assms(2) by (cases "accessOrder s") auto
  with assms(1) have "k \<in> fst ` set (cache s)"
    by (auto simp: access_consistent_def)
  then obtain e where e: "map_of (cache s) k = Some e"
    by (cases "map_of (cache s) k") (auto simp: map_of_None_iff_keys)
  have ev: "evictLeastUsed s =
      s\<lparr>trace := trace s @ [Notify_eviction k Lru],
        cache := AList.delete k (cache s),
        usage := AList.delete k (usage s),
        currentSize := currentSize s - int (entry_size e),
        accessOrder := ks\<rparr>"
    by (simp add: evictLeastUsed_def ks e)
  show "access_consistent (evictLeastUsed s)"
    using assms(1) by (auto simp: ev access_consistent_def ks keys_delete)
  show "length (accessOrder (evictLeastUsed s)) < length (accessOrder s)"
    by (simp add: ev ks)
  show "config (evictLeastUsed s) = config s"
    by (simp add: ev)
qed

lemma ensureSpace_rule:
  assumes "access_consistent s" and "P s"
    and step: "\<And>t. access_consistent t \<Longrightarrow> P t \<Longrightarrow> accessOrder t \<noteq> [] \<Longrightarrow> P (evictLeastUsed t)"
    and reset: "\<And>t. P t \<Longrightarrow> accessOrder t = [] \<Longrightarrow> P (clear (t\<lparr>trace := trace t @ [Warn_reset]\<rparr>))"
  shows "\<exists>s'. ensureSpace r s = Some s' \<and> P s' \<and> access_consistent s' \<and> config s' = config s
            \<and> (\<not> over_budget r s' \<or> (cache s' = [] \<and> currentSize s' = 0))"
  using assms(1,2)
proof (induction "length (accessOrder s)" arbitrary: s rule: less_induct)
  case less
  show ?case
  proof (cases "over_budget r s")
    case False
    then have "ensureSpace r s = Some s"
      by (subst ensureSpace.simps) (simp add: over_budget_def)
    with False less.prems show ?thesis by simp
  next
    case True
    show ?thesis
    proof (cases "accessOrder s = []")
      case True
      with \<open>over_budget r s\<close>
      have "ensureSpace r s = Some (clear (s\<lparr>trace := trace s @ [Warn_reset]\<rparr>))"
        by (subst ensureSpace.simps) (simp add: over_budget_def)
      moreover have "P (clear (s\<lparr>trace := trace s @ [Warn_reset]\<rparr>))"
        using reset less.prems(2) True by blast
      ultimately show ?thesis
        by (simp add: clear_def access_consistent_def)
    next
      case False
      with \<open>over_budget r s\<close>
      have eq: "ensureSpace r s = ensureSpace r (evictLeastUsed s)"
        by (subst ensureSpace.simps) (simp add: over_budget_def)
      from evict_step [OF less.prems(1) False] step [OF less.prems False]
      have "\<exists>s'. ensureSpace r (evictLeastUsed s) = Some s' \<and> P s' \<and> access_consistent s'
              \<and> config s' = config (evictLeastUsed s)
              \<and> (\<not> over_budget r s' \<or> (cache s' = [] \<and> currentSize s' = 0))"
        by (intro less.hyps) auto
      with eq evict_step(3) [OF less.prems(1) False] show ?thesis by simp
    qed
  qed
qed

subsection \<open>The cache: puts on a consistent cache\<close>

lemma loaderCalls_evict: "loaderCalls k (evictLeastUsed t) = loaderCalls k t"
  by (simp add: evictLeastUsed_def loaderCalls_def split: list.splits option.splits)

lemma keys_evict: "fst ` set (cache (evictLeastUsed t)) \<subseteq> fst ` set (cache t)"
  by (auto simp: evictLeastUsed_def keys_delete split: list.splits option.splits)

lemma keys_update: "fst ` set (AList.update k v xs) = insert k (fst ` set xs)"
  by (induction xs) auto

text \<open>A put that is not rejected runs to completion on a consistent cache, calls no loader and
  leaves the cache consistent.\<close>

lemma cache_set_total:
  assumes "access_consistent s"
  shows "\<exists>s'. cache_set env key m q s = Some s' \<and> access_consistent s'
            \<and> loaderCalls k s' = loaderCalls k s \<and> config s' = config s"
proof (cases "real (estimateModelSize env m) > maxSize (config s) * 0.5")
  case True
  then show ?thesis
    using assms by (simp add: cache_set_def access_consistent_def loaderCalls_def)
next
  case False
  have "\<exists>s1. ensureSpace (int (estimateModelSize env m)) s = Some s1
          \<and> loaderCalls k s1 = loaderCalls k s \<and> access_consistent s1 \<and> config s1 = config s
          \<and> (\<not> over_budget (int (estimateModelSize env m)) s1 \<or> (cache s1 = [] \<and> currentSize s1 = 0))"
    by (rule ensureSpace_rule [OF assms])
      (simp_all add: loaderCalls_evict, simp add: loaderCalls_def clear_def)
  then obtain s1 where s1: "ensureSpace (int (estimateModelSize env m)) s = Some s1"
      "loaderCalls k s1 = loaderCalls k s" "access_consistent s1" "config s1 = config s"
    by blast
  from s1(3) have "distinct (remove1 key (accessOrder s1) @ [key])"
    by (auto simp: access_consistent_def)
  moreover from s1(3) have "set (remove1 key (accessOrder s1) @ [key])
      \<subseteq> insert key (fst ` set (cache s1))"
    using set_remove1_subset [of key "accessOrder s1"] by (auto simp: access_consistent_def)
  ultimately show ?thesis
    using False s1
    by (auto simp: cache_set_def Let_def updateAccessOrder_def access_consistent_def
        loaderCalls_def keys_update)
qed

subsection \<open>The cache: concurrent loads of one key\<close>

lemma get_begin_miss:
  "map_of (cache s) key = None \<Longrightarrow>
   get_begin env key s =
     (Miss, s\<lparr>totalRequests := totalRequests s + 1, cacheMisses := cacheMisses s + 1,
              trace := trace s @ [LoaderCall key]\<rparr>)"
  by (simp add: get_begin_def)

lemma get_resume_total:
  assumes "access_consistent s"
  shows "\<exists>s'. get_resume env key q outcome s = Some (outcome, s') \<and> access_consistent s'
            \<and> loaderCalls k s' = loaderCalls k s \<and> config s' = config s"
proof (cases outcome)
  case (Inl err)
  then show ?thesis
    using assms by (simp add: get_resume_def access_consistent_def loaderCalls_def)
next
  case (Inr m)
  from cache_set_total [OF assms, of env key m q k]
  obtain s1 where "cache_set env key m q s = Some s1" "access_consistent s1"
      "loaderCalls k s1 = loaderCalls k s" "config s1 = config s"
    by blast
  then show ?thesis
    using Inr by (simp add: get_resume_def access_consistent_def loaderCalls_def)
qed

text \<open>
  Claim C1, as the code has it. The cache keeps no record of the loads that are in flight: a
  key is known only once its entry is stored. So when a key is absent and a second
  \<^verbatim>\<open>get\<close> for it is issued while the first one waits for its loader, both calls miss,
  the loader is called twice, both calls run to completion, and each caller receives the
  outcome of its own load.
\<close>

theorem concurrent_gets_call_loader_twice:
  assumes "map_of (cache s) key = None" and "access_consistent s"
  shows "\<exists>s'. concurrent_gets env key q outcome1 outcome2 s = Some (outcome1, outcome2, s')
            \<and> loaderCalls key s' = loaderCalls key s + 2"
proof -
  let ?s1 = "s\<lparr>totalRequests := totalRequests s + 1, cacheMisses := cacheMisses s + 1,
              trace := trace s @ [LoaderCall key]\<rparr>"
  let ?s2 = "?s1\<lparr>totalRequests := totalRequests ?s1 + 1, cacheMisses := cacheMisses ?s1 + 1,
              trace := trace ?s1 @ [LoaderCall key]\<rparr>"
  have b1: "get_begin env key s = (Miss, ?s1)"
    using assms(1) by (rule get_begin_miss)
  have b2: "get_begin env key ?s1 = (Miss, ?s2)"
    using assms(1) by (intro get_begin_miss) simp
  have c2: "access_consistent ?s2"
    using assms(2) by (simp add: access_consistent_def)
  have n2: "loaderCalls key ?s2 = loaderCalls key s + 2"
    by (simp add: loaderCalls_def)
  from get_resume_total [OF c2, of env key q outcome1 key]
  obtain s3 where s3: "get_resume env key q outcome1 ?s2 = Some (outcome1, s3)"
      "access_consistent s3" "loaderCalls key s3 = loaderCalls key ?s2"
    by blast
  from get_resume_total [OF s3(2), of env key q outcome2 key]
  obtain s4 where s4: "get_resume env key q outcome2 s3 = Some (outcome2, s4)"
      "loaderCalls key s4 = loaderCalls key s3"
    by blast
  have "concurrent_gets env key q outcome1 outcome2 s = Some (outcome1, outcome2, s4)"
    by (simp only: concurrent_gets_def b1 b2 settle_def s3(1) s4(1) prod.case lookup.case
        option.case)
  with s4(2) s3(3) n2 show ?thesis by simp
qed

text \<open>On the empty cache: the first load yields a model, the second fails, and each caller gets
  its own outcome after two calls of the loader.\<close>

theorem concurrent_gets_call_loader_twice_witness:
  "map_of (cache small_cache) ''a'' = None \<and> access_consistent small_cache \<and>
   (\<exists>s'. concurrent_gets ex_env ''a'' None (Inr 7) (Inl (LoadError ''x'')) small_cache
            = Some (Inr 7, Inl (LoadError ''x''), s')
        \<and> loaderCalls ''a'' s' = loaderCalls ''a'' small_cache + 2)"
  using concurrent_gets_call_loader_twice [of small_cache "''a''" ex_env None "Inr 7" "Inl (LoadError ''x'')"]
  by (simp add: small_cache_def new_ModelCache_def access_consistent_def)

text \<open>
  Claim C1 as stated fails on that run: the loader is called twice, not once, and the second
  caller receives the failure of its own load, not the model that the first load produced.
\<close>

theorem get_deduplication_counterexample:
  "map_option fst
     (concurrent_gets ex_env ''a'' None (Inr 7) (Inl (LoadError ''x'')) small_cache) = Some (Inr 7)
   \<and> map_option (fst \<circ> snd)
     (concurrent_gets ex_env ''a'' None (Inr 7) (Inl (LoadError ''x'')) small_cache)
       = Some (Inl (LoadError ''x''))
   \<and> map_option (loaderCalls ''a'' \<circ> snd \<circ> snd)
     (concurrent_gets ex_env ''a'' None (Inr 7) (Inl (LoadError ''x'')) small_cache) = Some 2"
  by code_simp

subsection \<open>The cache: entries that are too large\<close>

text \<open>
  Claim C8. A model whose estimated size exceeds half of the configured maximum size is not
  stored: \<^verbatim>\<open>set\<close> returns the state it was given with one warning added to the console.
  The two tables, the tracked size, the access order and the counters are unchanged, the
  eviction loop is not entered and no eviction is notified.
\<close>

theorem cache_set_too_large:
  "real (estimateModelSize env m) > maxSize (config s) * 0.5 \<Longrightarrow>
   cache_set env key m q s =
     Some (s\<lparr>trace := trace s @ [Warn_too_large key (estimateModelSize env m)]\<rparr>)"
  by (simp add: cache_set_def)

text \<open>A model of 60 bytes offered to a cache of 100 bytes.\<close>

theorem cache_set_too_large_witness:
  "real (estimateModelSize ex_env 60) > maxSize (config small_cache) * 0.5 \<and>
   cache_set ex_env ''a'' 60 None small_cache =
     Some (small_cache\<lparr>trace := trace small_cache @ [Warn_too_large ''a'' 60]\<rparr>)"
  using cache_set_too_large [of small_cache ex_env 60 "''a''" None]
  by (simp add: ex_env_def small_cache_def new_ModelCache_def)

subsection \<open>The manager: registration\<close>

text \<open>
  Claim C5, as the code has it. \<^verbatim>\<open>registerModel\<close> does not look at the mapping of source
  paths before it stores the asset. With a mapping that has no entries the call returns
  normally: the asset is in the registry with the empty mapping, unloaded and with no current
  quality, the registration counter went up by one, the \<^verbatim>\<open>modelLoad\<close> event was published,
  and no preload was issued to the cache.
\<close>

theorem registerModel_without_paths:
  "\<exists>s' cfg. registerModel env entId [] options s = Some s'
      \<and> lookupModel entId s' = Some cfg \<and> paths cfg = [] \<and> entityId cfg = entId
      \<and> currentQuality cfg = None \<and> \<not> isLoaded cfg
      \<and> modelsRegistered s' = modelsRegistered s + 1
      \<and> lod_trace s' = lod_trace s @ [Notify_modelLoad entId]
      \<and> trace (modelCache s') = trace (modelCache s)"
  by (simp add: registerModel_def path_of_def lookupModel_def initialize_def
      adjustConfigForDevice_def update_Some_unfold Let_def)

text \<open>
  Claim C5 as stated fails: on a fresh manager, registering \<^verbatim>\<open>tree\<close> with no source paths
  and no options returns a state, and the registry of that state holds the asset.
\<close>

theorem registerModel_without_paths_counterexample:
  "map_option (lookupModel ''tree'') (registerModel ex_env ''tree'' [] no_options ex_manager)
     = Some (Some \<lparr>entityId = ''tree'', paths = [],
                   lodDistances = \<lparr>near = Num 2, medium = Num 5, far = Num 10\<rparr>,
                   currentQuality = None, isLoaded = False, isVisible = False, lastUpdate = 0,
                   config_memoryUsage = 0, priority = 5, preload = True, element = None\<rparr>)"
  by code_simp

subsection \<open>The manager: unloading\<close>

lemma map_entry_same:
  "map_of xs k = Some v \<Longrightarrow> f v = v \<Longrightarrow> AList.map_entry k f xs = xs"
  by (induction xs) (auto split: if_splits)

lemma map_entry_twice:
  "AList.map_entry k f (AList.map_entry k f xs) = AList.map_entry k (f \<circ> f) xs"
  by (induction xs) auto

text \<open>
  Claim C9 at an input where the code breaks it. \<^verbatim>\<open>unloadModel\<close> calls
  \<^verbatim>\<open>getObject3D\<close>, \<^verbatim>\<open>removeObject3D\<close> and \<^verbatim>\<open>setAttribute\<close> on the asset's node with
  no \<^verbatim>\<open>try\<close> around them, where \<^verbatim>\<open>applyModelToElement\<close> guards the same calls. The
  asset \<^verbatim>\<open>tree\<close> is registered, not loaded and without a current quality, and its node is a
  plain DOM element: unloading it throws, while \<^verbatim>\<open>applyModelToElement\<close> on that node
  catches the error and logs it.
\<close>

theorem unloadModel_throws_on_plain_node:
  "lookupModel ''tree'' plain_node_registered = Some (ex_asset all_tiers)
   \<and> isLoaded (ex_asset all_tiers) = False
   \<and> currentQuality (ex_asset all_tiers) = None
   \<and> element (ex_asset all_tiers) = Some ''tree''
   \<and> is_entity (display plain_node_registered ''tree'') = False
   \<and> fst (unloadModel ''tree'' plain_node_registered) = Some (NodeError ''tree'')
   \<and> display_errors (applyModelToElement ''tree'' 10 Low plain_node_registered)
       = [(''tree'', NodeError ''tree'')]"
  by (simp add: plain_node_registered_def ex_registered_def ex_asset_def lookupModel_def
      unloadModel_def applyModelToElement_def ex_manager_def new_LODManager_def)

text \<open>
  What does hold of unloading. An unknown asset: no exception, the state unchanged. A
  registered asset that is not loaded and has no current quality: with no node, the state
  unchanged; with an entity as node, the registry, the cache, the counters and the events
  unchanged and the node emptied and hidden; with any other node, the exception above and the
  state unchanged. And a second call gives the result of the first, exception included.
\<close>

lemma unloadModel_repeated:
  "(lookupModel entId s = None \<longrightarrow> unloadModel entId s = (None, s))
   \<and> (\<forall>cfg. lookupModel entId s = Some cfg \<and> \<not> isLoaded cfg \<and> currentQuality cfg = None \<longrightarrow>
         unloadModel entId s =
           (case element cfg of
              None \<Rightarrow> (None, s)
            | Some el \<Rightarrow>
                if is_entity (display s el)
                then (None, s\<lparr>display := (display s)
                                 (el := (display s el)\<lparr>mesh := None, visible := False\<rparr>)\<rparr>)
                else (Some (NodeError el), s)))
   \<and> unloadModel entId (snd (unloadModel entId s)) = unloadModel entId s"
proof (intro conjI allI impI)
  assume "lookupModel entId s = None"
  then show "unloadModel entId s = (None, s)"
    by (simp add: unloadModel_def lookupModel_def)
next
  fix cfg
  assume a: "lookupModel entId s = Some cfg \<and> \<not> isLoaded cfg \<and> currentQuality cfg = None"
  then have "AList.map_entry entId (\<lambda>c. c\<lparr>isLoaded := False, currentQuality := None\<rparr>)
      (activeModels s) = activeModels s"
    by (intro map_entry_same [of _ _ cfg]) (simp_all add: lookupModel_def)
  with a show "unloadModel entId s =
           (case element cfg of
              None \<Rightarrow> (None, s)
            | Some el \<Rightarrow>
                if is_entity (display s el)
                then (None, s\<lparr>display := (display s)
                                 (el := (display s el)\<lparr>mesh := None, visible := False\<rparr>)\<rparr>)
                else (Some (NodeError el), s))"
    by (simp add: unloadModel_def lookupModel_def split: option.splits)
next
  show "unloadModel entId (snd (unloadModel entId s)) = unloadModel entId s"
  proof (cases "map_of (activeModels s) entId")
    case None
    then show ?thesis by (simp add: unloadModel_def)
  next
    case (Some cfg)
    let ?f = "\<lambda>c. c\<lparr>isLoaded := False, currentQuality := None\<rparr>"
    have ff: "AList.map_entry entId ?f (AList.map_entry entId ?f (activeModels s))
        = AList.map_entry entId ?f (activeModels s)"
      by (simp add: map_entry_twice comp_def)
    have l: "map_of (AList.map_entry entId ?f (activeModels s)) entId = Some (?f cfg)"
      by (simp add: map_of_map_entry Some)
    show ?thesis
    proof (cases "element cfg")
      case None
      then show ?thesis by (simp add: unloadModel_def Some l ff)
    next
      case (Some el)
      then show ?thesis
        by (cases "is_entity (display s el)")
          (simp_all add: unloadModel_def \<open>map_of (activeModels s) entId = Some cfg\<close> l ff)
    qed
  qed
qed

subsection \<open>The manager: quality transitions\<close>

lemma cache_get_fails:
  "map_of (cache c) key = None \<Longrightarrow>
   cache_get env key (Inl err) q c = Some (Inl err, load_failed key err c)"
  by (simp add: cache_get_def get_begin_def get_resume_def load_failed_def)

lemma load_failed_facts:
  "cache (load_failed key err c) = cache c"
  "access_consistent (load_failed key err c) = access_consistent c"
  "loaderCalls k (load_failed key err c) = loaderCalls k c + (if k = key then 1 else 0)"
  by (simp_all add: load_failed_def access_consistent_def loaderCalls_def)

lemma preloadModel_fails:
  assumes "lookupModel entId s = Some cfg" and "path_of cfg q = Some p"
    and "map_of (cache (modelCache s)) (cacheKey entId q) = None"
    and "loadGLTF env p = Inl err"
  shows "preloadModel env entId q s =
     Some (Inl err, s\<lparr>modelCache := load_failed (cacheKey entId q) err (modelCache s)\<rparr>)"
  using assms by (simp add: preloadModel_def lookupModel_def cache_get_fails)

text \<open>A failed load at a tier: the error is reported and the tier below is tried.\<close>

lemma changeModelQuality_failed_tier:
  assumes "lookupModel entId s = Some cfg" and "path_of cfg q = Some p"
    and "map_of (cache (modelCache s)) (cacheKey entId q) = None"
    and "loadGLTF env p = Inl err"
  shows "changeModelQuality env entId q s =
     (if q = High then changeModelQuality env entId Medium
          (s\<lparr>modelCache := load_failed (cacheKey entId q) err (modelCache s),
             lod_trace := lod_trace s @ [Error_changeQuality entId err]\<rparr>)
      else if q = Medium then changeModelQuality env entId Low
          (s\<lparr>modelCache := load_failed (cacheKey entId q) err (modelCache s),
             lod_trace := lod_trace s @ [Error_changeQuality entId err]\<rparr>)
      else Some (s\<lparr>modelCache := load_failed (cacheKey entId q) err (modelCache s),
             lod_trace := lod_trace s @ [Error_changeQuality entId err]\<rparr>))"
  using assms(1,2)
  by (subst changeModelQuality.simps)
    (simp add: preloadModel_fails [OF assms] lookupModel_def Let_def)

lemma changeModelQuality_no_path:
  "lookupModel entId s = Some cfg \<Longrightarrow> path_of cfg q = None \<Longrightarrow>
   changeModelQuality env entId q s = Some s"
  by (subst changeModelQuality.simps) (simp add: lookupModel_def)

text \<open>
  Claim C10. For a registered asset and a target tier with no usable source path,
  \<^verbatim>\<open>changeModelQuality\<close> returns the state it was given: the cache and its loader are not
  touched, the asset keeps its current quality and loaded flag, and nothing is published. As a
  consequence, when the load at High fails for an asset with no path at Medium, the fallback
  ends there: the resulting state differs from the initial one by the failed load at High and
  its error report only, so the Low tier is never attempted, whatever its path would load.
\<close>

theorem changeModelQuality_missing_path:
  "(lookupModel entId s = Some cfg \<and> path_of cfg q = None \<longrightarrow>
      changeModelQuality env entId q s = Some s)
   \<and> (lookupModel entId s = Some cfg \<and> path_of cfg High = Some p
        \<and> map_of (cache (modelCache s)) (cacheKey entId High) = None
        \<and> loadGLTF env p = Inl err \<and> path_of cfg Medium = None \<longrightarrow>
      changeModelQuality env entId High s =
        Some (s\<lparr>modelCache := (modelCache s)
                  \<lparr>totalRequests := totalRequests (modelCache s) + 1,
                   cacheMisses := cacheMisses (modelCache s) + 1,
                   trace := trace (modelCache s) @
                     [LoaderCall (cacheKey entId High), Error_load (cacheKey entId High) err,
                      Notify_error (cacheKey entId High) err]\<rparr>,
                lod_trace := lod_trace s @ [Error_changeQuality entId err]\<rparr>))"
proof (intro conjI impI)
  assume "lookupModel entId s = Some cfg \<and> path_of cfg q = None"
  then show "changeModelQuality env entId q s = Some s"
    by (simp add: changeModelQuality_no_path)
next
  let ?s1 = "s\<lparr>modelCache := load_failed (cacheKey entId High) err (modelCache s),
             lod_trace := lod_trace s @ [Error_changeQuality entId err]\<rparr>"
  assume a: "lookupModel entId s = Some cfg \<and> path_of cfg High = Some p
        \<and> map_of (cache (modelCache s)) (cacheKey entId High) = None
        \<and> loadGLTF env p = Inl err \<and> path_of cfg Medium = None"
  then have "changeModelQuality env entId High s = changeModelQuality env entId Medium ?s1"
    by (simp add: changeModelQuality_failed_tier [of entId s cfg High p env err])
  also have "\<dots> = Some ?s1"
    using a by (intro changeModelQuality_no_path [of _ _ cfg]) (simp_all add: lookupModel_def)
  finally show "changeModelQuality env entId High s =
        Some (s\<lparr>modelCache := (modelCache s)
                  \<lparr>totalRequests := totalRequests (modelCache s) + 1,
                   cacheMisses := cacheMisses (modelCache s) + 1,
                   trace := trace (modelCache s) @
                     [LoaderCall (cacheKey entId High), Error_load (cacheKey entId High) err,
                      Notify_error (cacheKey entId High) err]\<rparr>,
                lod_trace := lod_trace s @ [Error_changeQuality entId err]\<rparr>)"
    by (simp add: load_failed_def)
qed

text \<open>An asset with paths at High and Low only, where the Low path would load.\<close>

theorem changeModelQuality_missing_path_witness:
  "lookupModel ''tree'' (ex_registered two_tiers) = Some (ex_asset two_tiers)
   \<and> path_of (ex_asset two_tiers) Medium = None
   \<and> changeModelQuality ex_env ''tree'' Medium (ex_registered two_tiers)
       = Some (ex_registered two_tiers)
   \<and> path_of (ex_asset two_tiers) High = Some ''high.glb''
   \<and> path_of (ex_asset two_tiers) Low = Some ''low.glb''
   \<and> map_of (cache (modelCache (ex_registered two_tiers))) (cacheKey ''tree'' High) = None
   \<and> loadGLTF ex_env ''high.glb'' = Inl (LoadError ''high.glb'')
   \<and> loadGLTF ex_env ''low.glb'' = Inr 10
   \<and> map_option lod_trace (changeModelQuality ex_env ''tree'' High (ex_registered two_tiers))
       = Some [Error_changeQuality ''tree'' (LoadError ''high.glb'')]
   \<and> map_option (trace \<circ> modelCache)
        (changeModelQuality ex_env ''tree'' High (ex_registered two_tiers))
       = Some [LoaderCall ''tree_high'', Error_load ''tree_high'' (LoadError ''high.glb''),
               Notify_error ''tree_high'' (LoadError ''high.glb'')]
   \<and> map_option activeModels (changeModelQuality ex_env ''tree'' High (ex_registered two_tiers))
       = Some (activeModels (ex_registered two_tiers))"
  using changeModelQuality_missing_path [of "''tree''" "ex_registered two_tiers"
      "ex_asset two_tiers" Medium ex_env "''high.glb''" "LoadError ''high.glb''"]
  by (simp add: lookupModel_def ex_registered_def ex_asset_def two_tiers_def path_of_def
      ex_manager_def new_LODManager_def new_ModelCache_def ex_env_def cacheKey_def)

lemma keys_map_entry: "fst ` set (AList.map_entry k f xs) = fst ` set xs"
  by (induction xs) auto

lemma cacheKey_neq [simp]: "q \<noteq> q' \<Longrightarrow> cacheKey entId q \<noteq> cacheKey entId q'"
  by (cases q; cases q') (simp_all add: cacheKey_def)

lemma updateAccess_consistent:
  assumes "access_consistent c" and "map_of (cache c) key = Some e"
  shows "access_consistent (updateAccess env key c)"
    and "trace (updateAccess env key c) = trace c"
proof -
  from assms(2) have k: "key \<in> fst ` set (cache c)"
    by (metis map_of_None_iff_keys option.distinct(1))
  from assms(1) have "distinct (remove1 key (accessOrder c) @ [key])"
    by (auto simp: access_consistent_def)
  moreover from assms(1) k have "set (remove1 key (accessOrder c) @ [key]) \<subseteq> fst ` set (cache c)"
    using set_remove1_subset [of key "accessOrder c"] by (auto simp: access_consistent_def)
  ultimately show "access_consistent (updateAccess env key c)"
    by (auto simp: updateAccess_def updateAccessOrder_def access_consistent_def keys_map_entry
        Let_def split: option.splits)
  show "trace (updateAccess env key c) = trace c"
    by (simp add: updateAccess_def updateAccessOrder_def Let_def split: option.splits)
qed

lemma cache_get_succeeds:
  assumes "access_consistent c"
  shows "\<exists>m' c'. cache_get env key (Inr m) q c = Some (Inr m', c') \<and> access_consistent c'
           \<and> (k \<noteq> key \<longrightarrow> loaderCalls k c' = loaderCalls k c)
           \<and> (map_of (cache c) key = None \<longrightarrow> m' = m)"
proof (cases "map_of (cache c) key")
  case (Some e)
  let ?c1 = "c\<lparr>totalRequests := totalRequests c + 1, cacheHits := cacheHits c + 1\<rparr>"
  have "access_consistent ?c1" "map_of (cache ?c1) key = Some e"
    using assms Some by (simp_all add: access_consistent_def)
  from updateAccess_consistent [OF this, of env]
  show ?thesis
    using Some by (simp add: cache_get_def get_begin_def loaderCalls_def)
next
  case None
  let ?c1 = "c\<lparr>totalRequests := totalRequests c + 1, cacheMisses := cacheMisses c + 1,
              trace := trace c @ [LoaderCall key]\<rparr>"
  have "access_consistent ?c1"
    using assms by (simp add: access_consistent_def)
  from get_resume_total [OF this, of env key q "Inr m" k]
  obtain c' where "get_resume env key q (Inr m) ?c1 = Some (Inr m, c')" "access_consistent c'"
      "loaderCalls k c' = loaderCalls k ?c1"
    by blast
  then show ?thesis
    using None by (simp add: cache_get_def get_begin_miss loaderCalls_def)
qed

text \<open>A load that succeeds at a tier ends the transition at that tier.\<close>

lemma changeModelQuality_loaded_tier:
  assumes "lookupModel entId s = Some cfg" and "path_of cfg q = Some p"
    and "loadGLTF env p = Inr m" and "access_consistent (modelCache s)"
  shows "\<exists>s' m'. changeModelQuality env entId q s = Some s'
           \<and> lookupModel entId s' = Some (cfg\<lparr>currentQuality := Some q, isLoaded := True\<rparr>)
           \<and> lod_trace s' = lod_trace s @ [Notify_qualityChange entId (currentQuality cfg) q m']
           \<and> qualityChanges s' = qualityChanges s + 1
           \<and> (k \<noteq> cacheKey entId q \<longrightarrow>
                 loaderCalls k (modelCache s') = loaderCalls k (modelCache s))"
proof -
  from cache_get_succeeds [OF assms(4), of env "cacheKey entId q" m "Some (quality_name q)" k]
  obtain m' c' where g: "cache_get env (cacheKey entId q) (Inr m) (Some (quality_name q))
        (modelCache s) = Some (Inr m', c')"
      "k \<noteq> cacheKey entId q \<longrightarrow> loaderCalls k c' = loaderCalls k (modelCache s)"
    by blast
  have pre: "preloadModel env entId q s = Some (Inr m', s\<lparr>modelCache := c'\<rparr>)"
    using assms(1-3) g(1) by (simp add: preloadModel_def lookupModel_def)
  show ?thesis
    using assms(1,2) g(2)
    by (subst changeModelQuality.simps)
      (simp add: pre lookupModel_def Let_def applyModelToElement_def map_of_map_entry
        split: option.splits)
qed

text \<open>
  Claim C4. Take a registered asset with a source path at each tier, a cache that holds neither
  its High nor its Medium variant, and a loader that fails on the High and on the Medium path.
  If the loader succeeds on the Low path, a transition to High completes with the asset loaded
  at Low: the loader was called once for High and once for Medium, two failed transitions were
  reported, and one quality change to Low was published. If the loader fails on the Low path
  too (and the Low variant is not cached), the transition ends after that one attempt at Low:
  three failures are reported, the loader was called once per tier, and the registry is
  unchanged.
\<close>

theorem changeModelQuality_fallback_chain:
  assumes "lookupModel entId s = Some cfg"
    and "path_of cfg High = Some ph" and "path_of cfg Medium = Some pm"
    and "path_of cfg Low = Some pl"
    and "map_of (cache (modelCache s)) (cacheKey entId High) = None"
    and "map_of (cache (modelCache s)) (cacheKey entId Medium) = None"
    and "loadGLTF env ph = Inl e1" and "loadGLTF env pm = Inl e2"
    and "access_consistent (modelCache s)"
  shows "(\<forall>m. loadGLTF env pl = Inr m \<longrightarrow>
           (\<exists>s' m'. changeModelQuality env entId High s = Some s'
              \<and> lookupModel entId s' = Some (cfg\<lparr>currentQuality := Some Low, isLoaded := True\<rparr>)
              \<and> lod_trace s' = lod_trace s @
                   [Error_changeQuality entId e1, Error_changeQuality entId e2,
                    Notify_qualityChange entId (currentQuality cfg) Low m']
              \<and> qualityChanges s' = qualityChanges s + 1
              \<and> loaderCalls (cacheKey entId High) (modelCache s')
                   = loaderCalls (cacheKey entId High) (modelCache s) + 1
              \<and> loaderCalls (cacheKey entId Medium) (modelCache s')
                   = loaderCalls (cacheKey entId Medium) (modelCache s) + 1))
       \<and> (\<forall>e3. loadGLTF env pl = Inl e3
               \<and> map_of (cache (modelCache s)) (cacheKey entId Low) = None \<longrightarrow>
           (\<exists>s'. changeModelQuality env entId High s = Some s'
              \<and> activeModels s' = activeModels s
              \<and> lod_trace s' = lod_trace s @
                   [Error_changeQuality entId e1, Error_changeQuality entId e2,
                    Error_changeQuality entId e3]
              \<and> qualityChanges s' = qualityChanges s
              \<and> loaderCalls (cacheKey entId High) (modelCache s')
                   = loaderCalls (cacheKey entId High) (modelCache s) + 1
              \<and> loaderCalls (cacheKey entId Medium) (modelCache s')
                   = loaderCalls (cacheKey entId Medium) (modelCache s) + 1
              \<and> loaderCalls (cacheKey entId Low) (modelCache s')
                   = loaderCalls (cacheKey entId Low) (modelCache s) + 1))"
proof -
  let ?kh = "cacheKey entId High" and ?km = "cacheKey entId Medium" and ?kl = "cacheKey entId Low"
  let ?s1 = "s\<lparr>modelCache := load_failed ?kh e1 (modelCache s),
               lod_trace := lod_trace s @ [Error_changeQuality entId e1]\<rparr>"
  let ?s2 = "?s1\<lparr>modelCache := load_failed ?km e2 (modelCache ?s1),
               lod_trace := lod_trace ?s1 @ [Error_changeQuality entId e2]\<rparr>"
  have step1: "changeModelQuality env entId High s = changeModelQuality env entId Medium ?s1"
    using changeModelQuality_failed_tier [OF assms(1,2,5,7)] by simp
  have l1: "lookupModel entId ?s1 = Some cfg"
    using assms(1) by (simp add: lookupModel_def)
  have m1: "map_of (cache (modelCache ?s1)) ?km = None"
    using assms(6) by (simp add: load_failed_facts)
  have step2: "changeModelQuality env entId Medium ?s1 = changeModelQuality env entId Low ?s2"
    using changeModelQuality_failed_tier [OF l1 assms(3) m1 assms(8)] by simp
  have l2: "lookupModel entId ?s2 = Some cfg"
    using assms(1) by (simp add: lookupModel_def)
  have c2: "access_consistent (modelCache ?s2)"
    using assms(9) by (simp add: load_failed_facts)
  have calls2:
    "loaderCalls ?kh (modelCache ?s2) = loaderCalls ?kh (modelCache s) + 1"
    "loaderCalls ?km (modelCache ?s2) = loaderCalls ?km (modelCache s) + 1"
    "loaderCalls ?kl (modelCache ?s2) = loaderCalls ?kl (modelCache s)"
    by (simp_all add: load_failed_facts)
  show ?thesis
  proof (intro conjI allI impI)
    fix m
    assume ok: "loadGLTF env pl = Inr m"
    from changeModelQuality_loaded_tier [OF l2 assms(4) ok c2, of ?kh]
    obtain s' m' where h: "changeModelQuality env entId Low ?s2 = Some s'"
        "lookupModel entId s' = Some (cfg\<lparr>currentQuality := Some Low, isLoaded := True\<rparr>)"
        "lod_trace s' = lod_trace ?s2 @ [Notify_qualityChange entId (currentQuality cfg) Low m']"
        "qualityChanges s' = qualityChanges ?s2 + 1"
        "loaderCalls ?kh (modelCache s') = loaderCalls ?kh (modelCache ?s2)"
      by auto
    from changeModelQuality_loaded_tier [OF l2 assms(4) ok c2, of ?km] h(1)
    have hm: "loaderCalls ?km (modelCache s') = loaderCalls ?km (modelCache ?s2)"
      by auto
    show "\<exists>s' m'. changeModelQuality env entId High s = Some s'
              \<and> lookupModel entId s' = Some (cfg\<lparr>currentQuality := Some Low, isLoaded := True\<rparr>)
              \<and> lod_trace s' = lod_trace s @
                   [Error_changeQuality entId e1, Error_changeQuality entId e2,
                    Notify_qualityChange entId (currentQuality cfg) Low m']
              \<and> qualityChanges s' = qualityChanges s + 1
              \<and> loaderCalls (cacheKey entId High) (modelCache s')
                   = loaderCalls (cacheKey entId High) (modelCache s) + 1
              \<and> loaderCalls (cacheKey entId Medium) (modelCache s')
                   = loaderCalls (cacheKey entId Medium) (modelCache s) + 1"
      using h hm calls2 by (intro exI [of _ s'] exI [of _ m']) (simp add: step1 step2)
  next
    fix e3
    assume bad: "loadGLTF env pl = Inl e3
               \<and> map_of (cache (modelCache s)) (cacheKey entId Low) = None"
    then have m2: "map_of (cache (modelCache ?s2)) ?kl = None"
      by (simp add: load_failed_facts)
    let ?s3 = "?s2\<lparr>modelCache := load_failed ?kl e3 (modelCache ?s2),
               lod_trace := lod_trace ?s2 @ [Error_changeQuality entId e3]\<rparr>"
    from bad have e3: "loadGLTF env pl = Inl e3" by simp
    have step3: "changeModelQuality env entId Low ?s2 = Some ?s3"
      using changeModelQuality_failed_tier [OF l2 assms(4) m2 e3] by simp
    show "\<exists>s'. changeModelQuality env entId High s = Some s'
              \<and> activeModels s' = activeModels s
              \<and> lod_trace s' = lod_trace s @
                   [Error_changeQuality entId e1, Error_changeQuality entId e2,
                    Error_changeQuality entId e3]
              \<and> qualityChanges s' = qualityChanges s
              \<and> loaderCalls (cacheKey entId High) (modelCache s')
                   = loaderCalls (cacheKey entId High) (modelCache s) + 1
              \<and> loaderCalls (cacheKey entId Medium) (modelCache s')
                   = loaderCalls (cacheKey entId Medium) (modelCache s) + 1
              \<and> loaderCalls (cacheKey entId Low) (modelCache s')
                   = loaderCalls (cacheKey entId Low) (modelCache s) + 1"
      using step3 by (intro exI [of _ ?s3]) (simp add: step1 step2 load_failed_facts)
  qed
qed

text \<open>The asset \<^verbatim>\<open>tree\<close> with all three paths, once where only the Low path loads and once
  where no path loads.\<close>

theorem changeModelQuality_fallback_chain_witness:
  "lookupModel ''tree'' (ex_registered all_tiers) = Some (ex_asset all_tiers)
   \<and> path_of (ex_asset all_tiers) High = Some ''high.glb''
   \<and> path_of (ex_asset all_tiers) Medium = Some ''medium.glb''
   \<and> path_of (ex_asset all_tiers) Low = Some ''low.glb''
   \<and> map_of (cache (modelCache (ex_registered all_tiers))) (cacheKey ''tree'' High) = None
   \<and> map_of (cache (modelCache (ex_registered all_tiers))) (cacheKey ''tree'' Medium) = None
   \<and> map_of (cache (modelCache (ex_registered all_tiers))) (cacheKey ''tree'' Low) = None
   \<and> access_consistent (modelCache (ex_registered all_tiers))
   \<and> loadGLTF ex_env ''high.glb'' = Inl (LoadError ''high.glb'')
   \<and> loadGLTF ex_env ''medium.glb'' = Inl (LoadError ''medium.glb'')
   \<and> loadGLTF ex_env ''low.glb'' = Inr 10
   \<and> (\<exists>s' m'. changeModelQuality ex_env ''tree'' High (ex_registered all_tiers) = Some s'
         \<and> lookupModel ''tree'' s'
              = Some ((ex_asset all_tiers)\<lparr>currentQuality := Some Low, isLoaded := True\<rparr>)
         \<and> lod_trace s' =
              [Error_changeQuality ''tree'' (LoadError ''high.glb''),
               Error_changeQuality ''tree'' (LoadError ''medium.glb''),
               Notify_qualityChange ''tree'' None Low m']
         \<and> loaderCalls ''tree_high'' (modelCache s') = 1
         \<and> loaderCalls ''tree_medium'' (modelCache s') = 1)
   \<and> loadGLTF failing_env ''high.glb'' = Inl (LoadError ''high.glb'')
   \<and> loadGLTF failing_env ''medium.glb'' = Inl (LoadError ''medium.glb'')
   \<and> loadGLTF failing_env ''low.glb'' = Inl (LoadError ''low.glb'')
   \<and> (\<exists>s'. changeModelQuality failing_env ''tree'' High (ex_registered all_tiers) = Some s'
         \<and> activeModels s' = activeModels (ex_registered all_tiers)
         \<and> lod_trace s' =
              [Error_changeQuality ''tree'' (LoadError ''high.glb''),
               Error_changeQuality ''tree'' (LoadError ''medium.glb''),
               Error_changeQuality ''tree'' (LoadError ''low.glb'')]
         \<and> loaderCalls ''tree_low'' (modelCache s') = 1)"
proof -
  have reg: "lookupModel ''tree'' (ex_registered all_tiers) = Some (ex_asset all_tiers)"
    by (simp add: lookupModel_def ex_registered_def)
  have p: "path_of (ex_asset all_tiers) High = Some ''high.glb''"
      "path_of (ex_asset all_tiers) Medium = Some ''medium.glb''"
      "path_of (ex_asset all_tiers) Low = Some ''low.glb''"
    by (simp_all add: path_of_def ex_asset_def all_tiers_def)
  have c: "cache (modelCache (ex_registered all_tiers)) = []"
      "trace (modelCache (ex_registered all_tiers)) = []"
      "accessOrder (modelCache (ex_registered all_tiers)) = []"
      "lod_trace (ex_registered all_tiers) = []"
    by (simp_all add: ex_registered_def ex_manager_def new_LODManager_def new_ModelCache_def)
  have k: "cacheKey ''tree'' High = ''tree_high''" "cacheKey ''tree'' Medium = ''tree_medium''"
      "cacheKey ''tree'' Low = ''tree_low''"
    by (simp_all add: cacheKey_def)
  have m: "map_of (cache (modelCache (ex_registered all_tiers))) (cacheKey ''tree'' High) = None"
      "map_of (cache (modelCache (ex_registered all_tiers))) (cacheKey ''tree'' Medium) = None"
      "map_of (cache (modelCache (ex_registered all_tiers))) (cacheKey ''tree'' Low) = None"
    by (simp_all add: c)
  have a: "access_consistent (modelCache (ex_registered all_tiers))"
    by (simp add: access_consistent_def c)
  have l: "loadGLTF ex_env ''high.glb'' = Inl (LoadError ''high.glb'')"
      "loadGLTF ex_env ''medium.glb'' = Inl (LoadError ''medium.glb'')"
      "loadGLTF ex_env ''low.glb'' = Inr 10"
    by (simp_all add: ex_env_def)
  have f: "loadGLTF failing_env ''high.glb'' = Inl (LoadError ''high.glb'')"
      "loadGLTF failing_env ''medium.glb'' = Inl (LoadError ''medium.glb'')"
      "loadGLTF failing_env ''low.glb'' = Inl (LoadError ''low.glb'')"
    by (simp_all add: failing_env_def)
  note t1 = changeModelQuality_fallback_chain [OF reg p m(1,2) l(1,2) a]
  note t2 = changeModelQuality_fallback_chain [OF reg p m(1,2) f(1,2) a]
  from t1 l(3) have 1: "\<exists>s' m'. changeModelQuality ex_env ''tree'' High (ex_registered all_tiers) = Some s'
         \<and> lookupModel ''tree'' s'
              = Some ((ex_asset all_tiers)\<lparr>currentQuality := Some Low, isLoaded := True\<rparr>)
         \<and> lod_trace s' =
              [Error_changeQuality ''tree'' (LoadError ''high.glb''),
               Error_changeQuality ''tree'' (LoadError ''medium.glb''),
               Notify_qualityChange ''tree'' None Low m']
         \<and> loaderCalls ''tree_high'' (modelCache s') = 1
         \<and> loaderCalls ''tree_medium'' (modelCache s') = 1"
    by (auto simp add: k c loaderCalls_def ex_asset_def)
  from t2 f(3) m(3) have 2: "\<exists>s'. changeModelQuality failing_env ''tree'' High (ex_registered all_tiers) = Some s'
         \<and> activeModels s' = activeModels (ex_registered all_tiers)
         \<and> lod_trace s' =
              [Error_changeQuality ''tree'' (LoadError ''high.glb''),
               Error_changeQuality ''tree'' (LoadError ''medium.glb''),
               Error_changeQuality ''tree'' (LoadError ''low.glb'')]
         \<and> loaderCalls ''tree_low'' (modelCache s') = 1"
    by (auto simp add: k c loaderCalls_def)
  from reg p m a l f 1 2 show ?thesis by blast
qed

subsection \<open>The manager: memory cleanup\<close>

text \<open>The cache above is what two puts and one read produce from the empty cache.\<close>

lemma skewed_cache_reached:
  "Option.bind (cache_set ex_env ''a'' 10 None small_cache)
     (\<lambda>c. Option.bind (cache_get ex_env ''a'' (Inr 10) None c)
        (\<lambda>rc. cache_set ex_env ''b'' 10 None (snd rc))) = Some skewed_cache"
  by code_simp

lemma quarter_rounded_up: "nat \<lceil>real k * 0.25\<rceil> = (k + 3) div 4"
proof -
  have "real k * 0.25 = real_of_int (int k) / real_of_int 4" by simp
  then have "\<lceil>real k * 0.25\<rceil> = - (- int k div 4)"
    by (simp only: ceiling_divide_eq_div)
  then show ?thesis by linarith
qed

lemma fold_info_keys:
  "fold (\<lambda>info c. snd (cache_delete (info_key info) c))
     (map (\<lambda>(key, entry). \<lparr>info_key = key, info_accessCount = accessCount entry\<rparr>) xs) c
   = fold (\<lambda>key c. snd (cache_delete key c)) (map fst xs) c"
  by (induction xs arbitrary: c) (auto split: prod.splits)

lemma cache_get_total:
  assumes "access_consistent c"
  shows "\<exists>r c'. cache_get env key outcome q c = Some (r, c') \<and> access_consistent c'"
proof (cases "map_of (cache c) key")
  case (Some e)
  let ?c1 = "c\<lparr>totalRequests := totalRequests c + 1, cacheHits := cacheHits c + 1\<rparr>"
  have "access_consistent ?c1" "map_of (cache ?c1) key = Some e"
    using assms Some by (simp_all add: access_consistent_def)
  from updateAccess_consistent(1) [OF this, of env]
  show ?thesis
    using Some by (simp add: cache_get_def get_begin_def)
next
  case None
  let ?c1 = "c\<lparr>totalRequests := totalRequests c + 1, cacheMisses := cacheMisses c + 1,
              trace := trace c @ [LoaderCall key]\<rparr>"
  have "access_consistent ?c1"
    using assms by (simp add: access_consistent_def)
  from get_resume_total [OF this, of env key q outcome key]
  show ?thesis
    using None by (auto simp add: cache_get_def get_begin_miss)
qed

lemma preloadModel_total:
  assumes "access_consistent (modelCache s)"
  shows "\<exists>r c'. preloadModel env entId q s = Some (r, s\<lparr>modelCache := c'\<rparr>)
           \<and> access_consistent c'"
proof (cases "map_of (activeModels s) entId")
  case None
  then show ?thesis
    using assms by (intro exI [of _ "Inl (ModelNotFound entId q)"] exI [of _ "modelCache s"])
      (simp add: preloadModel_def)
next
  case (Some cfg)
  show ?thesis
  proof (cases "path_of cfg q")
    case None
    then show ?thesis
      using assms Some
      by (intro exI [of _ "Inl (ModelNotFound entId q)"] exI [of _ "modelCache s"])
        (simp add: preloadModel_def)
  next
    case (Some p)
    from cache_get_total [OF assms, of env "cacheKey entId q" "loadGLTF env p"
        "Some (quality_name q)"]
    show ?thesis
      using Some \<open>map_of (activeModels s) entId = Some cfg\<close>
      by (auto simp add: preloadModel_def)
  qed
qed

text \<open>Every transition runs to completion on a consistent cache and leaves it consistent.\<close>

lemma changeModelQuality_total:
  "access_consistent (modelCache s) \<Longrightarrow>
   \<exists>s'. changeModelQuality env entId q s = Some s' \<and> access_consistent (modelCache s')"
proof (induction "tier q" arbitrary: q s rule: less_induct)
  case less
  show ?case
  proof (cases "map_of (activeModels s) entId")
    case None
    then show ?thesis
      using less.prems by (subst changeModelQuality.simps) simp
  next
    case (Some cfg)
    note reg = Some
    show ?thesis
    proof (cases "path_of cfg q")
      case None
      then show ?thesis
        using less.prems reg by (subst changeModelQuality.simps) simp
    next
      case (Some p)
      from preloadModel_total [OF less.prems, of env entId q]
      obtain r c' where pre: "preloadModel env entId q s = Some (r, s\<lparr>modelCache := c'\<rparr>)"
          and ac: "access_consistent c'"
        by blast
      show ?thesis
      proof (cases r)
        case (Inr m)
        then show ?thesis
          using reg Some pre ac
          by (subst changeModelQuality.simps)
            (simp add: Let_def applyModelToElement_def split: option.splits)
      next
        case (Inl err)
        let ?s2 = "s\<lparr>modelCache := c',
                     lod_trace := lod_trace s @ [Error_changeQuality entId err]\<rparr>"
        have ac2: "access_consistent (modelCache ?s2)" using ac by simp
        have unfold: "changeModelQuality env entId q s =
            (if q = High then changeModelQuality env entId Medium ?s2
             else if q = Medium then changeModelQuality env entId Low ?s2
             else Some ?s2)"
          using reg Some pre Inl by (subst changeModelQuality.simps) (simp add: Let_def)
        show ?thesis
        proof (cases q)
          case Low
          with unfold ac2 show ?thesis by simp
        next
          case Medium
          with less.hyps [of Low ?s2] ac2 unfold show ?thesis by simp
        next
          case High
          with less.hyps [of Medium ?s2] ac2 unfold show ?thesis by simp
        qed
      qed
    qed
  qed
qed

lemma degrade_each_total:
  "access_consistent (modelCache s) \<Longrightarrow>
   \<exists>s'. degrade_each env ids s = Some s' \<and> access_consistent (modelCache s')"
proof (induction ids arbitrary: s)
  case Nil
  then show ?case by simp
next
  case (Cons entId rest)
  show ?case
  proof (cases "map_of (activeModels s) entId")
    case None
    with Cons show ?thesis by simp
  next
    case (Some cfg)
    have "\<exists>s1. (if currentQuality cfg = Some High then changeModelQuality env entId Medium s
                 else if currentQuality cfg = Some Medium then changeModelQuality env entId Low s
                 else Some s) = Some s1 \<and> access_consistent (modelCache s1)"
      using Cons.prems changeModelQuality_total [OF Cons.prems, of env entId] by simp
    then obtain s1 where "(if currentQuality cfg = Some High
                 then changeModelQuality env entId Medium s
                 else if currentQuality cfg = Some Medium then changeModelQuality env entId Low s
                 else Some s) = Some s1" "access_consistent (modelCache s1)"
      by blast
    with Cons.IH [of s1] Some show ?thesis by simp
  qed
qed

lemma unloadModel_cache: "modelCache (snd (unloadModel entId s)) = modelCache s"
  by (simp add: unloadModel_def split: option.splits)

lemma unload_each_cache: "modelCache (snd (unload_each ids s)) = modelCache s"
proof (induction ids arbitrary: s)
  case Nil
  then show ?case by simp
next
  case (Cons entId rest)
  obtain e s1 where u: "unloadModel entId s = (e, s1)" by (cases "unloadModel entId s")
  with unloadModel_cache [of entId s] have "modelCache s1 = modelCache s" by simp
  with Cons [of s1] u show ?case by (cases e) simp_all
qed

lemma optimization_phase_total:
  assumes "access_consistent (modelCache s)"
  shows "\<exists>raised s2. optimization_phase env requestedFPS m s = Some (raised, s2)"
proof -
  let ?s1 = "s\<lparr>isOptimizing := True, optimizationRuns := optimizationRuns s + 1,
               lod_trace := lod_trace s @ [Notify_optimizationStart]\<rparr>"
  have "access_consistent (modelCache ?s1)" using assms by simp
  from degrade_each_total [OF this, of env]
  have "\<exists>r. applyPerformanceOptimizations env ?s1 = Some r"
    by (auto simp add: applyPerformanceOptimizations_def Let_def split: option.splits)
  then show ?thesis
    by (cases "optimization_phase env requestedFPS m s")
      (auto simp add: optimization_phase_def Let_def split: if_splits)
qed

lemma performMemoryCleanup_frame:
  "lod_trace (performMemoryCleanup s) = lod_trace s"
  by (simp add: performMemoryCleanup_def Let_def)

text \<open>
  Claim C6, as the code has it. The cleanup takes the list \<^verbatim>\<open>leastUsed\<close> of the cache
  statistics, which holds at most five entries ordered by access count (lowest first, entries
  with equal counts in the order they were stored), and deletes the first quarter of that
  list, rounded up. With n entries in the cache that is the first \<open>(min n 5 + 3) div 4\<close>
  keys of the entries sorted by access count: never more than two, whatever the size of the
  cache, and chosen by how often an entry was read, not by how recently. A run of
  \<^verbatim>\<open>optimizeForPerformance\<close> that is not re-entrant and sees a frame rate of at least 0.8
  of the target leaves the cache as it is when the memory percentage is at most 80, and
  applies the cleanup to it when the percentage is above 80. And every run that is not
  re-entrant, on a consistent cache, with any target and any frame rate, returns: its first
  phase ends in some state, and when that phase raised no exception the run ends in exactly
  that state with the cleanup applied if the percentage is above 80, and unchanged otherwise,
  followed by the bookkeeping of the \<^verbatim>\<open>finally\<close> block. That first phase is the
  bookkeeping at the start and, when the frame rate is below 0.8 of the target, the function
  \<^verbatim>\<open>applyPerformanceOptimizations\<close>.
\<close>

theorem performMemoryCleanup_least_accessed:
  "modelCache (performMemoryCleanup s) =
     fold (\<lambda>key c. snd (cache_delete key c))
       (take ((min (length (usage (modelCache s))) 5 + 3) div 4)
          (map fst (sort_key (\<lambda>(key, entry). int (accessCount entry)) (usage (modelCache s)))))
       (modelCache s)
   \<and> (min (length (usage (modelCache s))) 5 + 3) div 4 \<le> 2
   \<and> (\<not> isOptimizing s \<and> \<not> reading_fps m < targetFPS (lod_config s) * 0.8 \<longrightarrow>
        map_option modelCache (optimizeForPerformance env None m s) =
          Some (if reading_memory_percentage m > 80
                then modelCache (performMemoryCleanup s) else modelCache s))
   \<and> (\<not> isOptimizing s \<and> access_consistent (modelCache s) \<longrightarrow>
        (\<exists>raised s2. optimization_phase env requestedFPS m s = Some (raised, s2)
           \<and> (raised = None \<longrightarrow>
                optimizeForPerformance env requestedFPS m s =
                  Some ((if reading_memory_percentage m > 80
                         then performMemoryCleanup s2 else s2)
                          \<lparr>isOptimizing := False,
                           lod_trace := lod_trace s2 @ [Notify_optimizationEnd]\<rparr>))))
   \<and> optimization_phase env requestedFPS m s =
       (if reading_fps m
             < (case requestedFPS of
                  None \<Rightarrow> targetFPS (lod_config s)
                | Some t \<Rightarrow> if t = 0 then targetFPS (lod_config s) else t) * 0.8
        then applyPerformanceOptimizations env
               (s\<lparr>isOptimizing := True, optimizationRuns := optimizationRuns s + 1,
                  lod_trace := lod_trace s @ [Notify_optimizationStart]\<rparr>)
        else Some (None, s\<lparr>isOptimizing := True, optimizationRuns := optimizationRuns s + 1,
                           lod_trace := lod_trace s @ [Notify_optimizationStart]\<rparr>))"
proof (intro conjI)
  let ?sorted = "sort_key (\<lambda>(key, entry). int (accessCount entry)) (usage (modelCache s))"
  let ?n = "length (usage (modelCache s))"
  have len: "length (leastUsed (getStats (modelCache s))) = min ?n 5"
    by (simp add: getStats_def getLeastUsedEntries_def min.commute)
  have le: "(min ?n 5 + 3) div 4 \<le> 2" by simp
  then show "(min ?n 5 + 3) div 4 \<le> 2" .
  have "take ((min ?n 5 + 3) div 4) (take 5 ?sorted) = take ((min ?n 5 + 3) div 4) ?sorted"
    using le by (simp add: min_def)
  then show "modelCache (performMemoryCleanup s) =
     fold (\<lambda>key c. snd (cache_delete key c)) (take ((min ?n 5 + 3) div 4) (map fst ?sorted))
       (modelCache s)"
    unfolding performMemoryCleanup_def Let_def quarter_rounded_up len
    by (simp add: getStats_def getLeastUsedEntries_def take_map fold_info_keys)
next
  show "\<not> isOptimizing s \<and> \<not> reading_fps m < targetFPS (lod_config s) * 0.8 \<longrightarrow>
        map_option modelCache (optimizeForPerformance env None m s) =
          Some (if reading_memory_percentage m > 80
                then modelCache (performMemoryCleanup s) else modelCache s)"
    by (simp add: optimizeForPerformance_def optimization_phase_def performMemoryCleanup_def
        Let_def)
next
  show "\<not> isOptimizing s \<and> access_consistent (modelCache s) \<longrightarrow>
        (\<exists>raised s2. optimization_phase env requestedFPS m s = Some (raised, s2)
           \<and> (raised = None \<longrightarrow>
                optimizeForPerformance env requestedFPS m s =
                  Some ((if reading_memory_percentage m > 80
                         then performMemoryCleanup s2 else s2)
                          \<lparr>isOptimizing := False,
                           lod_trace := lod_trace s2 @ [Notify_optimizationEnd]\<rparr>)))"
  proof
    assume a: "\<not> isOptimizing s \<and> access_consistent (modelCache s)"
    then obtain raised s2 where p: "optimization_phase env requestedFPS m s = Some (raised, s2)"
      using optimization_phase_total [of s env requestedFPS m] by blast
    have "raised = None \<longrightarrow>
                optimizeForPerformance env requestedFPS m s =
                  Some ((if reading_memory_percentage m > 80
                         then performMemoryCleanup s2 else s2)
                          \<lparr>isOptimizing := False,
                           lod_trace := lod_trace s2 @ [Notify_optimizationEnd]\<rparr>)"
      using a by (simp add: optimizeForPerformance_def p performMemoryCleanup_frame)
    with p show "\<exists>raised s2. optimization_phase env requestedFPS m s = Some (raised, s2)
           \<and> (raised = None \<longrightarrow>
                optimizeForPerformance env requestedFPS m s =
                  Some ((if reading_memory_percentage m > 80
                         then performMemoryCleanup s2 else s2)
                          \<lparr>isOptimizing := False,
                           lod_trace := lod_trace s2 @ [Notify_optimizationEnd]\<rparr>))"
      by blast
  qed
next
  show "optimization_phase env requestedFPS m s =
       (if reading_fps m
             < (case requestedFPS of
                  None \<Rightarrow> targetFPS (lod_config s)
                | Some t \<Rightarrow> if t = 0 then targetFPS (lod_config s) else t) * 0.8
        then applyPerformanceOptimizations env
               (s\<lparr>isOptimizing := True, optimizationRuns := optimizationRuns s + 1,
                  lod_trace := lod_trace s @ [Notify_optimizationStart]\<rparr>)
        else Some (None, s\<lparr>isOptimizing := True, optimizationRuns := optimizationRuns s + 1,
                           lod_trace := lod_trace s @ [Notify_optimizationStart]\<rparr>))"
    by (cases requestedFPS) (simp_all add: optimization_phase_def Let_def)
qed

text \<open>
  Two runs at 90% memory on the cache above: one at 30 frames per second, which skips the
  first phase, and one at 10, which runs it (there is no asset to degrade or unload). Both
  delete \<^verbatim>\<open>b\<close>.
\<close>

theorem performMemoryCleanup_least_accessed_witness:
  "\<not> isOptimizing skewed_manager
   \<and> \<not> reading_fps \<lparr>reading_fps = 30, reading_memory_percentage = 90\<rparr>
         < targetFPS (lod_config skewed_manager) * 0.8
   \<and> reading_memory_percentage \<lparr>reading_fps = 30, reading_memory_percentage = 90\<rparr> > 80
   \<and> access_consistent (modelCache skewed_manager)
   \<and> map_option modelCache (optimizeForPerformance ex_env None
         \<lparr>reading_fps = 30, reading_memory_percentage = 90\<rparr> skewed_manager)
       = Some (modelCache (performMemoryCleanup skewed_manager))
   \<and> modelCache (performMemoryCleanup skewed_manager)
       = snd (cache_delete ''b'' skewed_cache)
   \<and> optimization_phase ex_env None \<lparr>reading_fps = 10, reading_memory_percentage = 90\<rparr>
         skewed_manager
       = Some (None, skewed_manager\<lparr>isOptimizing := True, optimizationRuns := 1,
                                     lod_trace := [Notify_optimizationStart]\<rparr>)
   \<and> optimizeForPerformance ex_env None \<lparr>reading_fps = 10, reading_memory_percentage = 90\<rparr>
         skewed_manager
       = Some ((performMemoryCleanup
                 (skewed_manager\<lparr>isOptimizing := True, optimizationRuns := 1,
                                  lod_trace := [Notify_optimizationStart]\<rparr>))
                \<lparr>isOptimizing := False,
                 lod_trace := [Notify_optimizationStart, Notify_optimizationEnd]\<rparr>)"
proof -
  let ?m = "\<lparr>reading_fps = 30, reading_memory_percentage = 90\<rparr>"
  let ?low = "\<lparr>reading_fps = 10, reading_memory_percentage = 90\<rparr>"
  let ?started = "skewed_manager\<lparr>isOptimizing := True, optimizationRuns := 1,
                                     lod_trace := [Notify_optimizationStart]\<rparr>"
  have mc: "modelCache skewed_manager = skewed_cache"
    by (simp add: skewed_manager_def)
  have f: "activeModels skewed_manager = []" "optimizationRuns skewed_manager = 0"
      "lod_trace skewed_manager = []" "targetFPS (lod_config skewed_manager) = 30"
    by (simp_all add: skewed_manager_def ex_manager_def new_LODManager_def default_lod_config_def)
  have h: "\<not> isOptimizing skewed_manager"
      "\<not> reading_fps ?m < targetFPS (lod_config skewed_manager) * 0.8"
      "reading_memory_percentage ?m > 80"
    by (simp_all add: skewed_manager_def ex_manager_def new_LODManager_def default_lod_config_def)
  have ac: "access_consistent (modelCache skewed_manager)"
    by (simp add: mc access_consistent_def skewed_cache_def)
  have r: "fold (\<lambda>key c. snd (cache_delete key c))
       (take ((min (length (usage skewed_cache)) 5 + 3) div 4)
          (map fst (sort_key (\<lambda>(key, entry). int (accessCount entry)) (usage skewed_cache))))
       skewed_cache = snd (cache_delete ''b'' skewed_cache)"
    by code_simp
  have ph: "optimization_phase ex_env None ?low skewed_manager = Some (None, ?started)"
    by (simp add: optimization_phase_def applyPerformanceOptimizations_def Let_def f)
  from performMemoryCleanup_least_accessed [of skewed_manager ?m ex_env None] h
  have 1: "map_option modelCache (optimizeForPerformance ex_env None ?m skewed_manager)
       = Some (modelCache (performMemoryCleanup skewed_manager))"
    and 2: "modelCache (performMemoryCleanup skewed_manager) = snd (cache_delete ''b'' skewed_cache)"
    by (auto simp add: mc r)
  from performMemoryCleanup_least_accessed [of skewed_manager ?low ex_env None] h(1) ac ph
  have 3: "optimizeForPerformance ex_env None ?low skewed_manager
       = Some ((performMemoryCleanup ?started)
                \<lparr>isOptimizing := False,
                 lod_trace := [Notify_optimizationStart, Notify_optimizationEnd]\<rparr>)"
    by auto
  from h ac 1 2 ph 3 show ?thesis by blast
qed

text \<open>
  Claim C6 as stated fails on that run: the least-recently-used quarter of the two entries is
  \<^verbatim>\<open>a\<close>, and the cleanup deletes \<^verbatim>\<open>b\<close> and keeps \<^verbatim>\<open>a\<close>.
\<close>

theorem memory_cleanup_lru_counterexample:
  "map fst (cache (modelCache skewed_manager)) = [''a'', ''b'']
   \<and> spec_lru_quarter (modelCache skewed_manager) = [''a'']
   \<and> map fst (cache (modelCache (performMemoryCleanup skewed_manager))) = [''a'']
   \<and> map_option (map fst \<circ> cache \<circ> modelCache)
        (optimizeForPerformance ex_env None
           \<lparr>reading_fps = 30, reading_memory_percentage = 90\<rparr> skewed_manager) = Some [''a'']"
  by code_simp

text \<open>
  When the first phase raises an exception, which only the display-node calls of
  \<^verbatim>\<open>unloadModel\<close> can do, the run logs it and goes to the \<^verbatim>\<open>finally\<close> block: the
  memory check is skipped.
\<close>

lemma optimizeForPerformance_phase_raises:
  "\<not> isOptimizing s \<Longrightarrow> optimization_phase env requestedFPS m s = Some (Some err, s2) \<Longrightarrow>
   optimizeForPerformance env requestedFPS m s =
     Some (s2\<lparr>lod_trace := lod_trace s2 @ [Error_optimization err, Notify_optimizationEnd],
              isOptimizing := False\<rparr>)"
  by (simp add: optimizeForPerformance_def)

text \<open>Such a run: the idle asset \<^verbatim>\<open>tree\<close> sits on a plain DOM node, the frame rate is low
  and the memory is at 90%. Both entries are still in the cache afterwards.\<close>

lemma cleanup_skipped_when_unload_throws:
  "map_option (map fst \<circ> cache \<circ> modelCache)
     (optimizeForPerformance later_env None
        \<lparr>reading_fps = 10, reading_memory_percentage = 90\<rparr> idle_plain_manager)
     = Some [''a'', ''b'']
   \<and> map_option lod_trace
     (optimizeForPerformance later_env None
        \<lparr>reading_fps = 10, reading_memory_percentage = 90\<rparr> idle_plain_manager)
     = Some [Notify_optimizationStart, Error_optimization (NodeError ''tree''),
             Notify_optimizationEnd]"
  proof -
  let ?m = "\<lparr>reading_fps = 10, reading_memory_percentage = 90\<rparr>"
  have ph: "optimization_phase later_env None ?m idle_plain_manager =
      Some (Some (NodeError ''tree''),
            idle_plain_manager\<lparr>isOptimizing := True, optimizationRuns := 1,
                               lod_trace := [Notify_optimizationStart]\<rparr>)"
    by (simp add: optimization_phase_def applyPerformanceOptimizations_def Let_def
        unloadModel_def idle_plain_manager_def plain_node_registered_def later_env_def
        ex_env_def ex_registered_def ex_asset_def ex_manager_def new_LODManager_def
        default_lod_config_def)
  have idle: "\<not> isOptimizing idle_plain_manager"
    by (simp add: idle_plain_manager_def plain_node_registered_def ex_registered_def
        ex_manager_def new_LODManager_def)
  have c: "map fst (cache (modelCache idle_plain_manager)) = [''a'', ''b'']"
    by (simp add: idle_plain_manager_def skewed_cache_def)
  from optimizeForPerformance_phase_raises [OF idle ph] c show ?thesis
    by simp
qed

subsection \<open>The monitor: snapshots of the metrics\<close>

text \<open>
  Claim C7 at an input where the code breaks it. The spread copies the properties of the
  metrics object one level deep, so the snapshot's \<^verbatim>\<open>memoryUsage\<close> is the monitor's own
  memory-usage object. On a new monitor the monitor reads a memory percentage of 0; after a
  caller has taken a snapshot and assigned 99 to \<^verbatim>\<open>snapshot.memoryUsage.percentage\<close>, the
  monitor reads 99. A callback that makes the same assignment through the metrics of its
  notification has the same effect.
\<close>

theorem snapshot_shares_memoryUsage:
  "map_of (observed_metrics new_PerformanceMonitor) ''memoryUsage''
     = Some (Object [(''used'', VNum 0), (''total'', VNum 0), (''percentage'', VNum 0)])
   \<and> map_of (observed_metrics
        (after_caller_mutation (AssignNested ''memoryUsage'' ''percentage'' (VNum 99))
           new_PerformanceMonitor)) ''memoryUsage''
     = Some (Object [(''used'', VNum 0), (''total'', VNum 0), (''percentage'', VNum 99)])
   \<and> map_of (observed_metrics
        (snd (notifyPerformanceIssues [] [[AssignNested ''memoryUsage'' ''percentage'' (VNum 99)]]
           new_PerformanceMonitor))) ''memoryUsage''
     = Some (Object [(''used'', VNum 0), (''total'', VNum 0), (''percentage'', VNum 99)])"
  by code_simp

text \<open>What the copy does protect: an assignment to a property of the snapshot itself leaves
  the monitor's metrics as they were.\<close>

lemma spread_append: "a < length h \<Longrightarrow> spread (h @ xs) a = spread h a"
  by (simp add: spread_def nth_append)

lemma snapshot_top_level_isolated:
  assumes "refs_allocated st"
  shows "observed_metrics (after_caller_mutation (Assign f v) st) = observed_metrics st"
proof -
  let ?h = "heap st" and ?cm = "currentMetrics st"
  let ?h' = "write_prop (?h @ [spread ?h ?cm]) (length ?h) f v"
  have cm: "?cm < length ?h" using assms by (simp add: refs_allocated_def)
  have same: "\<And>a. a < length ?h \<Longrightarrow> spread ?h' a = spread ?h a"
    by (simp add: write_prop_def spread_def nth_append)
  have h': "heap (after_caller_mutation (Assign f v) st) = ?h'"
    and cm': "currentMetrics (after_caller_mutation (Assign f v) st) = ?cm"
    by (simp_all add: after_caller_mutation_def getCurrentMetrics_def alloc_def)
  have "map (\<lambda>(f, v). (f, case v of VNum x \<Rightarrow> Number x | VRef b \<Rightarrow> Object (spread ?h' b)))
          (spread ?h ?cm)
      = map (\<lambda>(f, v). (f, case v of VNum x \<Rightarrow> Number x | VRef b \<Rightarrow> Object (spread ?h b)))
          (spread ?h ?cm)"
    using assms same
    by (intro map_cong refl) (auto simp: refs_allocated_def list_all_iff split: jsval.splits)
  then show ?thesis
    unfolding observed_metrics_def h' cm' same [OF cm] .
qed

subsection \<open>The cache: the size accounting\<close>

lemma liveSize_delete:
  "distinct (map fst xs) \<Longrightarrow> map_of xs k = Some e \<Longrightarrow>
   (\<Sum>(key, entry)\<leftarrow>AList.delete k xs. int (entry_size entry))
     = (\<Sum>(key, entry)\<leftarrow>xs. int (entry_size entry)) - int (entry_size e)"
proof (induction xs)
  case Nil
  then show ?case by simp
next
  case (Cons x xs)
  obtain k' e' where x: "x = (k', e')" by (cases x)
  show ?case
  proof (cases "k' = k")
    case True
    with Cons.prems x have "k \<notin> fst ` set xs" "e' = e" by auto
    then have "AList.delete k xs = xs"
      by (simp add: delete_id)
    with True x \<open>e' = e\<close> show ?thesis by simp
  next
    case False
    with Cons x show ?thesis by simp
  qed
qed

lemma liveSize_map_entry:
  "(\<And>e. entry_size (f e) = entry_size e) \<Longrightarrow>
   (\<Sum>(key, entry)\<leftarrow>AList.map_entry k f xs. int (entry_size entry))
     = (\<Sum>(key, entry)\<leftarrow>xs. int (entry_size entry))"
  by (induction xs) auto

lemma update_fresh: "map_of xs k = None \<Longrightarrow> AList.update k v xs = xs @ [(k, v)]"
  by (induction xs) (auto split: if_splits)

lemma liveSize_nonneg: "0 \<le> liveSize s"
  unfolding liveSize_def by (induction "cache s" arbitrary: s) (auto intro!: sum_list_nonneg)

lemma remove_entry_invariant:
  assumes "cache_invariant s" and "map_of (cache s) k = Some e"
    and "cache t = AList.delete k (cache s)" and "usage t = AList.delete k (usage s)"
    and "currentSize t = currentSize s - int (entry_size e)"
    and "accessOrder t = remove1 k (accessOrder s)" and "config t = config s"
  shows "cache_invariant t"
proof -
  have "length (AList.delete k (cache s)) \<le> length (cache s)"
    by (simp add: AList.delete_eq)
  then show ?thesis
    using assms liveSize_delete [of "cache s" k e]
    by (auto simp: cache_invariant_def liveSize_def keys_delete distinct_delete)
qed

lemma evictLeastUsed_invariant:
  "cache_invariant s \<Longrightarrow> cache_invariant (evictLeastUsed s)"
proof (cases "accessOrder s")
  case Nil
  assume "cache_invariant s"
  with Nil show ?thesis by (simp add: evictLeastUsed_def)
next
  case (Cons k ks)
  assume inv: "cache_invariant s"
  show ?thesis
  proof (cases "map_of (cache s) k")
    case None
    with Cons inv show ?thesis by (simp add: evictLeastUsed_def)
  next
    case (Some e)
    show ?thesis
      by (rule remove_entry_invariant [OF inv Some]) (simp_all add: evictLeastUsed_def Cons Some)
  qed
qed

lemma cache_delete_invariant:
  "cache_invariant s \<Longrightarrow> cache_invariant (snd (cache_delete key s))"
proof (cases "map_of (cache s) key")
  case None
  assume "cache_invariant s"
  with None show ?thesis by (simp add: cache_delete_def)
next
  case (Some e)
  assume inv: "cache_invariant s"
  show ?thesis
    by (rule remove_entry_invariant [OF inv Some]) (simp_all add: cache_delete_def Some)
qed

lemma invariant_consistent: "cache_invariant s \<Longrightarrow> access_consistent s"
  by (simp add: cache_invariant_def access_consistent_def)

lemma length_map_entry': "length (AList.map_entry k f xs) = length xs"
  by (induction xs) auto

lemma updateAccess_invariant:
  assumes "cache_invariant s" and "map_of (cache s) key = Some e"
  shows "cache_invariant (updateAccess env key s)"
proof -
  let ?touch = "\<lambda>entry. entry\<lparr>lastAccess := now env, accessCount := accessCount entry + 1\<rparr>"
  from assms(2) have k: "key \<in> fst ` set (cache s)"
    by (metis map_of_None_iff_keys option.distinct(1))
  have sz: "(\<Sum>(key, entry)\<leftarrow>AList.map_entry key ?touch (cache s). int (entry_size entry))
      = (\<Sum>(key, entry)\<leftarrow>cache s. int (entry_size entry))"
    by (rule liveSize_map_entry) simp
  from assms(1) have "distinct (remove1 key (accessOrder s) @ [key])"
    by (auto simp: cache_invariant_def)
  moreover from assms(1) k have "set (remove1 key (accessOrder s) @ [key]) = fst ` set (cache s)"
    by (auto simp: cache_invariant_def)
  ultimately show ?thesis
    using assms sz
    by (simp add: updateAccess_def updateAccessOrder_def cache_invariant_def liveSize_def
        keys_map_entry distinct_map_entry length_map_entry' Let_def)
qed

lemma cache_set_fresh_invariant:
  assumes inv: "cache_invariant s" and fresh: "map_of (cache s) key = None"
    and cap: "1 \<le> maxEntries (config s)"
  shows "\<exists>s'. cache_set env key m q s = Some s' \<and> cache_invariant s' \<and> config s' = config s"
proof (cases "real (estimateModelSize env m) > maxSize (config s) * 0.5")
  case True
  then show ?thesis
    using inv by (simp add: cache_set_def cache_invariant_def liveSize_def)
next
  case False
  let ?sz = "estimateModelSize env m"
  let ?P = "\<lambda>t. cache_invariant t \<and> map_of (cache t) key = None"
  have "\<exists>s1. ensureSpace (int ?sz) s = Some s1 \<and> ?P s1 \<and> access_consistent s1
          \<and> config s1 = config s
          \<and> (\<not> over_budget (int ?sz) s1 \<or> (cache s1 = [] \<and> currentSize s1 = 0))"
  proof (rule ensureSpace_rule [where P = ?P])
    show "access_consistent s" using inv by (rule invariant_consistent)
    show "?P s" using inv fresh by simp
  next
    fix t assume "?P t"
    moreover have "fst ` set (cache (evictLeastUsed t)) \<subseteq> fst ` set (cache t)"
      by (rule keys_evict)
    ultimately show "?P (evictLeastUsed t)"
      by (auto simp: evictLeastUsed_invariant map_of_None_iff_keys)
  next
    fix t assume "?P t"
    then show "?P (clear (t\<lparr>trace := trace t @ [Warn_reset]\<rparr>))"
      using liveSize_nonneg [of t]
      by (auto simp: clear_def cache_invariant_def liveSize_def)
  qed
  then obtain s1 where s1: "ensureSpace (int ?sz) s = Some s1" "cache_invariant s1"
      "map_of (cache s1) key = None" "config s1 = config s"
      "\<not> over_budget (int ?sz) s1 \<or> (cache s1 = [] \<and> currentSize s1 = 0)"
    by blast
  from s1(2,3) have notin: "key \<notin> set (accessOrder s1)"
    by (simp add: cache_invariant_def map_of_None_iff_keys)
  then have ao: "remove1 key (accessOrder s1) = accessOrder s1"
    by (simp add: remove1_idem)
  have nonneg: "0 \<le> maxSize (config s)"
    using inv liveSize_nonneg [of s] by (simp add: cache_invariant_def)
  have budget: "int (length (cache s1)) + 1 \<le> maxEntries (config s)
      \<and> real_of_int (currentSize s1 + int ?sz) \<le> maxSize (config s)"
    using s1(4,5) False cap nonneg by (auto simp: over_budget_def)
  show ?thesis
    using False s1 notin budget
    by (simp add: cache_set_def Let_def updateAccessOrder_def ao update_fresh
        cache_invariant_def liveSize_def)
qed

lemma cache_get_invariant:
  assumes inv: "cache_invariant s" and cap: "1 \<le> maxEntries (config s)"
  shows "\<exists>r s'. cache_get env key outcome q s = Some (r, s') \<and> cache_invariant s'
           \<and> config s' = config s"
proof (cases "map_of (cache s) key")
  case (Some e)
  let ?s1 = "s\<lparr>totalRequests := totalRequests s + 1, cacheHits := cacheHits s + 1\<rparr>"
  have "cache_invariant ?s1" "map_of (cache ?s1) key = Some e"
    using inv Some by (simp_all add: cache_invariant_def liveSize_def)
  from updateAccess_invariant [OF this, of env]
  show ?thesis
    using Some
    by (simp add: cache_get_def get_begin_def updateAccess_def updateAccessOrder_def Let_def
        split: option.splits)
next
  case None
  let ?s1 = "s\<lparr>totalRequests := totalRequests s + 1, cacheMisses := cacheMisses s + 1,
              trace := trace s @ [LoaderCall key]\<rparr>"
  have s1: "cache_invariant ?s1" "map_of (cache ?s1) key = None" "1 \<le> maxEntries (config ?s1)"
    using inv None cap by (simp_all add: cache_invariant_def liveSize_def)
  show ?thesis
  proof (cases outcome)
    case (Inl err)
    with s1(1) None show ?thesis
      by (simp add: cache_get_def get_begin_miss get_resume_def cache_invariant_def liveSize_def)
  next
    case (Inr m)
    from cache_set_fresh_invariant [OF s1, of env m q]
    obtain s' where "cache_set env key m q ?s1 = Some s'" "cache_invariant s'"
        "config s' = config ?s1"
      by blast
    with None Inr show ?thesis
      by (simp add: cache_get_def get_begin_miss get_resume_def cache_invariant_def liveSize_def)
  qed
qed

lemma fold_delete_invariant:
  "cache_invariant s \<Longrightarrow>
   cache_invariant (fold (\<lambda>key t. snd (cache_delete key t)) keys s)
   \<and> config (fold (\<lambda>key t. snd (cache_delete key t)) keys s) = config s"
proof (induction keys arbitrary: s)
  case Nil
  then show ?case by simp
next
  case (Cons k keys)
  have "config (snd (cache_delete k s)) = config s"
    by (simp add: cache_delete_def split: option.splits)
  with Cons.IH [OF cache_delete_invariant [OF Cons.prems, of k]] show ?case by simp
qed

lemma evictLeastUsed_config: "config (evictLeastUsed s) = config s"
  by (simp add: evictLeastUsed_def split: list.splits option.splits)

lemma performMaintenance_invariant:
  "cache_invariant s \<Longrightarrow>
   cache_invariant (performMaintenance env s) \<and> config (performMaintenance env s) = config s"
  using fold_delete_invariant [of s]
  by (simp add: performMaintenance_def Let_def evictLeastUsed_invariant evictLeastUsed_config)

lemma new_ModelCache_invariant:
  "0 \<le> maxEntries cfg \<Longrightarrow> 0 \<le> maxSize cfg \<Longrightarrow> cache_invariant (new_ModelCache cfg)"
  by (simp add: new_ModelCache_def cache_invariant_def liveSize_def)

lemma run_op_invariant:
  assumes "cache_invariant s" and "1 \<le> maxEntries (config s)"
  shows "\<exists>s'. run_op env op s = Some s' \<and> cache_invariant s' \<and> config s' = config s"
proof (cases op)
  case (Op_get t key outcome q)
  from cache_get_invariant [OF assms, of "env\<lparr>now := t\<rparr>" key outcome q]
  show ?thesis using Op_get by auto
next
  case (Op_delete key)
  have "config (snd (cache_delete key s)) = config s"
    by (simp add: cache_delete_def split: option.splits)
  then show ?thesis
    using Op_delete cache_delete_invariant [OF assms(1), of key] by simp
next
  case Op_evict
  then show ?thesis
    using evictLeastUsed_invariant [OF assms(1)] by (simp add: evictLeastUsed_config)
next
  case (Op_maintain t)
  then show ?thesis
    using performMaintenance_invariant [OF assms(1), of "env\<lparr>now := t\<rparr>"] by simp
qed

text \<open>
  Under sequential use the invariant of the specification holds: when it holds of a cache with
  room for at least one entry, every list of operations runs to completion on it and the
  invariant holds of the result. A new cache satisfies it.
\<close>

theorem sequential_use_keeps_invariant:
  assumes "cache_invariant s" and "1 \<le> maxEntries (config s)"
  shows "\<exists>s'. run_ops env ops s = Some s' \<and> cache_invariant s' \<and> config s' = config s"
  using assms
proof (induction ops arbitrary: s)
  case Nil
  then show ?case by simp
next
  case (Cons op ops)
  from run_op_invariant [OF Cons.prems, of env op]
  obtain s1 where s1: "run_op env op s = Some s1" "cache_invariant s1" "config s1 = config s"
    by blast
  with Cons.prems(2) have "1 \<le> maxEntries (config s1)" by simp
  from Cons.IH [OF s1(2) this] s1 show ?case by simp
qed

text \<open>Two reads of one key, a model too large to keep, a failed load, a delete, an eviction
  and a maintenance pass, on the empty cache.\<close>

theorem sequential_use_keeps_invariant_witness:
  "cache_invariant small_cache \<and> 1 \<le> maxEntries (config small_cache)
   \<and> (\<exists>s'. run_ops ex_env
          [Op_get 1 ''a'' (Inr 10) None, Op_get 2 ''a'' (Inr 10) None,
           Op_get 3 ''b'' (Inr 60) None, Op_get 4 ''c'' (Inl (LoadError ''c'')) None,
           Op_delete ''a'', Op_evict, Op_maintain 400000] small_cache = Some s'
        \<and> cache_invariant s')"
  using sequential_use_keeps_invariant [of small_cache ex_env
          "[Op_get 1 ''a'' (Inr 10) None, Op_get 2 ''a'' (Inr 10) None,
           Op_get 3 ''b'' (Inr 60) None, Op_get 4 ''c'' (Inl (LoadError ''c'')) None,
           Op_delete ''a'', Op_evict, Op_maintain 400000]"]
  by (auto simp add: small_cache_def new_ModelCache_def cache_invariant_def liveSize_def)

text \<open>
  Claim C2 at an input where the code breaks it. \<^verbatim>\<open>set\<close> adds the size of the new entry
  to the tracked size without taking off the size of an entry it replaces. Two puts of a model
  of 10 bytes under one key leave one entry of 10 bytes and a tracked size of 20. The same
  happens through \<^verbatim>\<open>get\<close> when two concurrent calls load one key.
\<close>

theorem cache_set_same_key_double_counts:
  "map_option currentSize
     (Option.bind (cache_set ex_env ''a'' 10 None small_cache) (cache_set ex_env ''a'' 10 None))
     = Some 20
   \<and> map_option liveSize
     (Option.bind (cache_set ex_env ''a'' 10 None small_cache) (cache_set ex_env ''a'' 10 None))
     = Some 10
   \<and> map_option (currentSize \<circ> snd \<circ> snd)
       (concurrent_gets ex_env ''a'' None (Inr 10) (Inr 10) small_cache) = Some 20
   \<and> map_option (liveSize \<circ> snd \<circ> snd)
       (concurrent_gets ex_env ''a'' None (Inr 10) (Inr 10) small_cache) = Some 10"
  by code_simp

end
